theory Spec2Isabelle
  imports Main "HOL-Library.Monad_Syntax"
begin

section \<open>The reflection registry of rttr: \<^verbatim>\<open>type_database.cpp\<close>\<close>

text \<open>
  The registry is the class \<^verbatim>\<open>type_database\<close>: parallel vectors indexed by the type id, two
  name indexes sorted by hash, fixed-width inheritance rows, member maps and sorted item
  lists. The model is a record of these members and a function for each member function that
  registers or looks up by type, name or parameter types; a function that mutates the
  registry returns the new record. The lookups by an argument list, the destructor of the
  registry and the singleton accessor are left out.

  An element access \<^verbatim>\<open>v[i]\<close> outside a vector has no defined behaviour in C++. The model
  makes it the value \<open>None\<close>, so a function that indexes returns an \<open>option\<close>, and
  a theorem about its result has to show that the accesses are in range.
\<close>

subsection \<open>The standard library, as far as the registry uses it\<close>

text \<open>\<^verbatim>\<open>v[i]\<close> read and \<^verbatim>\<open>v[i] = x\<close> on a \<^verbatim>\<open>std::vector\<close>.\<close>

definition at :: "'a list \<Rightarrow> nat \<Rightarrow> 'a option" where
  "at v i = (if i < length v then Some (v ! i) else None)"

definition put :: "'a list \<Rightarrow> nat \<Rightarrow> 'a \<Rightarrow> 'a list option" where
  "put v i x = (if i < length v then Some (v[i := x]) else None)"

text \<open>\<^verbatim>\<open>v.resize(n, x)\<close>.\<close>

definition resize :: "'a list \<Rightarrow> nat \<Rightarrow> 'a \<Rightarrow> 'a list" where
  "resize v n x = take n v @ replicate (n - length v) x"

text \<open>
  \<^verbatim>\<open>std::lower_bound(first, last, k, comp)\<close> for a comparison by the key \<open>f\<close>: the furthermost
  position such that every element before it is less than \<open>k\<close>. An iterator is modelled as
  the rest of the vector from its position on, \<^verbatim>\<open>end()\<close> as the empty list. The standard
  defines the result for a vector partitioned by the key, as a sorted one is, and there the
  bisection of an implementation returns this position. On other vectors, such as a
  metadata vector stored from an unsorted argument, the bisection may stop elsewhere; the
  theorems below look keys up in sorted vectors, or conclude only that a key which is in
  none of the entries is not found, which is so wherever the search stops.
\<close>

definition lower_bound :: "('a \<Rightarrow> 'b::linorder) \<Rightarrow> 'b \<Rightarrow> 'a list \<Rightarrow> 'a list" where
  "lower_bound f k v = dropWhile (\<lambda>x. f x < k) v"

text \<open>
  \<^verbatim>\<open>std::stable_sort\<close> by the key \<open>f\<close> is \<^const>\<open>sort_key\<close>, which keeps the order of the
  elements with equal keys. \<^verbatim>\<open>std::sort\<close> promises a sorted permutation only; it is modelled
  by \<^const>\<open>sort_key\<close> as well, and the theorems about vectors sorted by it use nothing but
  that the result is sorted and holds the same elements.
\<close>

abbreviation stable_sort :: "('a \<Rightarrow> 'b::linorder) \<Rightarrow> 'a list \<Rightarrow> 'a list" where
  "stable_sort f v \<equiv> sort_key f v"

abbreviation std_sort :: "('a \<Rightarrow> 'b::linorder) \<Rightarrow> 'a list \<Rightarrow> 'a list" where
  "std_sort f v \<equiv> sort_key f v"

text \<open>\<^verbatim>\<open>std::isspace\<close> in the C locale: space, and the five controls from tab to carriage return.\<close>

definition isspace :: "char \<Rightarrow> bool" where
  "isspace c = (c \<in> {CHR 0x20, CHR 0x09, CHR 0x0A, CHR 0x0B, CHR 0x0C, CHR 0x0D})"

text \<open>\<^verbatim>\<open>text.find(part)\<close>: the first position where \<open>part\<close> occurs, \<open>None\<close> for \<^verbatim>\<open>npos\<close>.\<close>

fun str_find :: "string \<Rightarrow> string \<Rightarrow> nat option" where
  "str_find [] part = (if part = [] then Some 0 else None)"
| "str_find (c # cs) part =
     (if take (length part) (c # cs) = part then Some 0
      else map_option Suc (str_find cs part))"

text \<open>\<^verbatim>\<open>text.find_last_of(part)\<close>: the last position holding any character of \<open>part\<close>.\<close>

fun find_last_of :: "string \<Rightarrow> string \<Rightarrow> nat option" where
  "find_last_of [] part = None"
| "find_last_of (c # cs) part =
     (case find_last_of cs part of
        Some i \<Rightarrow> Some (Suc i)
      | None \<Rightarrow> if c \<in> set part then Some 0 else None)"

text \<open>\<^verbatim>\<open>text.insert(pos, " ")\<close>.\<close>

definition str_insert :: "string \<Rightarrow> nat \<Rightarrow> string \<Rightarrow> string" where
  "str_insert text pos s = take pos text @ s @ drop pos text"

subsection \<open>What the translation unit takes from its headers\<close>

text \<open>
  Three things the file uses are declared elsewhere and are parameters of the model:
  the hash of a name, \<^verbatim>\<open>type::normalize_orig_name\<close>, and the width of an inheritance row.
\<close>

record config =
  generate_hash :: "string \<Rightarrow> nat"
  normalize_orig_name :: "string \<Rightarrow> string"
  RTTR_MAX_INHERIT_TYPES_COUNT :: nat

text \<open>
  A \<^verbatim>\<open>type\<close> is its id, a \<^verbatim>\<open>uint16_t\<close>; id 0 is the invalid type. Pointers to wrappers and
  functions are addresses, 0 for \<^verbatim>\<open>nullptr\<close>.
\<close>

type_synonym type_id = nat

definition m_invalid_id :: type_id where
  "m_invalid_id = 0"

definition is_valid :: "type_id \<Rightarrow> bool" where
  "is_valid t = (t \<noteq> m_invalid_id)"

record base_class_info =
  m_base_type :: type_id
  m_rttr_cast_func :: nat

text \<open>\<^verbatim>\<open>name_to_id\<close>; its field \<^verbatim>\<open>m_id\<close> is \<open>m_name_id\<close> here, apart from \<^verbatim>\<open>type_data::m_id\<close>.\<close>

record name_to_id =
  m_name_id :: type_id
  m_hash_value :: nat

record 'a type_data =
  m_id :: type_id
  m_data :: 'a

text \<open>
  Modelled from the spec: the member handles, whose classes are not in this file. A property
  wraps a name, a method a name and the types of its parameters, a constructor the types of
  its parameters; each holds the address of its wrapper. The invalid handle that
  \<^verbatim>\<open>create_item<T>()\<close> makes is \<open>None\<close>. The class \<^verbatim>\<open>rttr::method\<close> is \<open>rttr_method\<close>
  here.
\<close>

record property =
  property_name :: string
  property_wrapper :: nat

record rttr_method =
  method_name :: string
  method_parameter_types :: "type_id list"
  method_wrapper :: nat

record constructor =
  constructor_parameter_types :: "type_id list"
  constructor_wrapper :: nat

type_synonym destructor = nat

record type_converter_base =
  m_target_type :: type_id
  converter_address :: nat

text \<open>
  A \<^verbatim>\<open>metadata\<close> is a key and a value, both variants. The keys are compared by the variant's
  \<^verbatim>\<open>operator<\<close>, taken here as a linear order on the key type; a value is \<open>None\<close> for the
  invalid variant \<^verbatim>\<open>variant()\<close>.
\<close>

record ('k, 'v) metadata =
  m_key :: 'k
  m_value :: "'v option"

text \<open>
  Modelled from the spec: \<^verbatim>\<open>flat_multimap\<close>, the container of the global properties and
  methods, which is not in this file. It is a multimap hashed by name that allows several
  entries under one name and keeps them in insertion order. The model is the vector of its
  entries, the entries of one key next to each other; \<^verbatim>\<open>find\<close> gives the position of the
  first value stored under the key (and the values behind it), \<^verbatim>\<open>insert\<close> puts the entry
  behind the last one of its key.
\<close>

type_synonym 'a flat_multimap = "(string \<times> 'a) list"

definition flat_multimap_find :: "'a flat_multimap \<Rightarrow> string \<Rightarrow> 'a list" where
  "flat_multimap_find m key = map snd (dropWhile (\<lambda>e. fst e \<noteq> key) m)"

definition flat_multimap_insert :: "'a flat_multimap \<Rightarrow> string \<Rightarrow> 'a \<Rightarrow> 'a flat_multimap" where
  "flat_multimap_insert m key v =
     (if key \<in> fst ` set m
      then rev (dropWhile (\<lambda>e. fst e \<noteq> key) (rev m)) @ [(key, v)] @
           rev (takeWhile (\<lambda>e. fst e \<noteq> key) (rev m))
      else m @ [(key, v)])"

definition value_data :: "'a flat_multimap \<Rightarrow> 'a list" where
  "value_data m = map snd m"

subsection \<open>The registry\<close>

record ('k, 'v) type_database =
  m_type_id_counter :: type_id
  m_type_list :: "type_id list"
  m_orig_names :: "string list"
  m_custom_names :: "string list"
  m_orig_name_to_id :: "name_to_id list"
  m_custom_name_to_id :: "name_to_id list"
  m_base_class_list :: "type_id list"
  m_derived_class_list :: "type_id list"
  m_conversion_list :: "nat list"
  m_get_derived_info_func_list :: "nat list"
  m_raw_type_list :: "type_id list"
  m_wrapped_type_list :: "type_id list"
  m_array_raw_type_list :: "type_id list"
  m_variant_create_func_list :: "nat list"
  m_type_size :: "nat list"
  m_is_class_list :: "bool list"
  m_is_enum_list :: "bool list"
  m_is_array_list :: "bool list"
  m_is_pointer_list :: "bool list"
  m_is_arithmetic_list :: "bool list"
  m_is_function_pointer_list :: "bool list"
  m_is_member_object_pointer_list :: "bool list"
  m_is_member_function_pointer_list :: "bool list"
  m_pointer_dim_list :: "nat list"
  m_global_properties :: "property flat_multimap"
  m_type_property_map :: "type_id \<rightharpoonup> property list"
  m_class_property_map :: "type_id \<rightharpoonup> property list"
  m_global_methods :: "rttr_method flat_multimap"
  m_type_method_map :: "type_id \<rightharpoonup> rttr_method list"
  m_class_method_map :: "type_id \<rightharpoonup> rttr_method list"
  m_type_ctor_map :: "type_id \<rightharpoonup> constructor list"
  m_type_dtor_map :: "type_id \<rightharpoonup> destructor"
  m_enumeration_list :: "nat type_data list"
  m_metadata_type_list :: "('k, 'v) metadata list type_data list"
  m_type_converter_list :: "type_converter_base type_data list"
  m_type_comparator_list :: "nat type_data list"

text \<open>
  The constructor: the counter at 0 and one dummy element in every vector that the type id
  indexes, for the invalid type.
\<close>

definition new_type_database :: "('k, 'v) type_database" where
  "new_type_database =
     \<lparr> m_type_id_counter = 0,
       m_type_list = [0],
       m_orig_names = [''!invalid_type!''],
       m_custom_names = [''!invalid_type!''],
       m_orig_name_to_id = [],
       m_custom_name_to_id = [],
       m_base_class_list = [0],
       m_derived_class_list = [0],
       m_conversion_list = [0],
       m_get_derived_info_func_list = [0],
       m_raw_type_list = [0],
       m_wrapped_type_list = [0],
       m_array_raw_type_list = [0],
       m_variant_create_func_list = [0],
       m_type_size = [0],
       m_is_class_list = [False],
       m_is_enum_list = [False],
       m_is_array_list = [False],
       m_is_pointer_list = [False],
       m_is_arithmetic_list = [False],
       m_is_function_pointer_list = [False],
       m_is_member_object_pointer_list = [False],
       m_is_member_function_pointer_list = [False],
       m_pointer_dim_list = [0],
       m_global_properties = [],
       m_type_property_map = Map.empty,
       m_class_property_map = Map.empty,
       m_global_methods = [],
       m_type_method_map = Map.empty,
       m_class_method_map = Map.empty,
       m_type_ctor_map = Map.empty,
       m_type_dtor_map = Map.empty,
       m_enumeration_list = [],
       m_metadata_type_list = [],
       m_type_converter_list = [],
       m_type_comparator_list = [] \<rparr>"

subsection \<open>Queries of a \<^verbatim>\<open>type\<close>\<close>

text \<open>
  Modelled from the spec: the member functions of \<^verbatim>\<open>type\<close> that the registry calls, whose
  file is not here. The classification flags and the raw type are read from the vectors
  that the id indexes. The base classes and the derived classes of a type are the entries
  of the fixed-width row of its raw type, \<open>RTTR_MAX_INHERIT_TYPES_COUNT * raw_id\<close> onwards,
  up to the first invalid entry.
\<close>

definition is_class :: "('k, 'v) type_database \<Rightarrow> type_id \<Rightarrow> bool option" where
  "is_class db t = at (m_is_class_list db) t"

definition get_raw_type :: "('k, 'v) type_database \<Rightarrow> type_id \<Rightarrow> type_id option" where
  "get_raw_type db t = at (m_raw_type_list db) t"

fun read_row :: "type_id list \<Rightarrow> nat \<Rightarrow> nat \<Rightarrow> type_id list option" where
  "read_row v pos 0 = Some []"
| "read_row v pos (Suc n) =
     (case at v pos of
        None \<Rightarrow> None
      | Some b \<Rightarrow>
          if b = m_invalid_id then Some []
          else map_option ((#) b) (read_row v (Suc pos) n))"

definition get_base_classes ::
  "config \<Rightarrow> ('k, 'v) type_database \<Rightarrow> type_id \<Rightarrow> type_id list option" where
  "get_base_classes cfg db t =
     do { raw_id \<leftarrow> get_raw_type db t;
          read_row (m_base_class_list db) (RTTR_MAX_INHERIT_TYPES_COUNT cfg * raw_id)
            (RTTR_MAX_INHERIT_TYPES_COUNT cfg) }"

definition get_derived_classes ::
  "config \<Rightarrow> ('k, 'v) type_database \<Rightarrow> type_id \<Rightarrow> type_id list option" where
  "get_derived_classes cfg db t =
     do { raw_id \<leftarrow> get_raw_type db t;
          read_row (m_derived_class_list db) (RTTR_MAX_INHERIT_TYPES_COUNT cfg * raw_id)
            (RTTR_MAX_INHERIT_TYPES_COUNT cfg) }"

subsection \<open>Properties and methods\<close>

text \<open>The vector a map holds for a type, empty when the map has no entry.\<close>

definition items_of :: "(type_id \<rightharpoonup> 'a list) \<Rightarrow> type_id \<Rightarrow> 'a list" where
  "items_of item_map t = (case item_map t of None \<Rightarrow> [] | Some vec \<Rightarrow> vec)"

text \<open>
  \<^verbatim>\<open>update_class_list\<close> rebuilds the class-level vector of \<open>t\<close> from the vectors that the
  base classes and \<open>t\<close> itself declare, and then calls itself for every derived class. The
  recursion follows the derived-class rows, and the registry does not keep them free of
  cycles; the model counts the depth of the calls down from \<open>fuel\<close> and is \<open>None\<close> when the
  count is used up.
\<close>

fun update_class_list ::
  "nat \<Rightarrow> config \<Rightarrow> ('k, 'v) type_database \<Rightarrow> type_id \<Rightarrow> (type_id \<rightharpoonup> 'a list) \<Rightarrow>
   (type_id \<rightharpoonup> 'a list) \<Rightarrow> (type_id \<rightharpoonup> 'a list) option"
and update_derived_types ::
  "nat \<Rightarrow> config \<Rightarrow> ('k, 'v) type_database \<Rightarrow> type_id list \<Rightarrow> (type_id \<rightharpoonup> 'a list) \<Rightarrow>
   (type_id \<rightharpoonup> 'a list) \<Rightarrow> (type_id \<rightharpoonup> 'a list) option"
where
  "update_class_list 0 cfg db t type_map class_map = None"
| "update_class_list (Suc fuel) cfg db t type_map class_map =
     do { base_classes \<leftarrow> get_base_classes cfg db t;
          let all_items_list =
            concat (map (items_of type_map) base_classes) @ items_of type_map t;
          derived_classes \<leftarrow> get_derived_classes cfg db t;
          update_derived_types fuel cfg db derived_classes type_map
            (class_map(t \<mapsto> all_items_list)) }"
| "update_derived_types fuel cfg db [] type_map class_map = Some class_map"
| "update_derived_types fuel cfg db (derived_type # rest) type_map class_map =
     do { class_map' \<leftarrow> update_class_list fuel cfg db derived_type type_map class_map;
          update_derived_types fuel cfg db rest type_map class_map' }"

definition get_class_item ::
  "('a \<Rightarrow> string) \<Rightarrow> type_id \<Rightarrow> string \<Rightarrow> (type_id \<rightharpoonup> 'a list) \<Rightarrow> 'a option" where
  "get_class_item get_name t name item_map =
     (case item_map t of
        None \<Rightarrow> None
      | Some vec \<Rightarrow> find (\<lambda>item. get_name item = name) vec)"

definition get_class_property :: "('k, 'v) type_database \<Rightarrow> type_id \<Rightarrow> string \<Rightarrow> property option" where
  "get_class_property db t name = get_class_item property_name t name (m_class_property_map db)"

definition get_type_property :: "('k, 'v) type_database \<Rightarrow> type_id \<Rightarrow> string \<Rightarrow> property option" where
  "get_type_property db t name = get_class_item property_name t name (m_type_property_map db)"

definition get_class_properties :: "('k, 'v) type_database \<Rightarrow> type_id \<Rightarrow> property list" where
  "get_class_properties db t =
     (case m_class_property_map db t of
        None \<Rightarrow> []
      | Some vec \<Rightarrow> if vec \<noteq> [] then vec else [])"

definition get_global_property :: "('k, 'v) type_database \<Rightarrow> string \<Rightarrow> property option" where
  "get_global_property db name =
     (case flat_multimap_find (m_global_properties db) name of
        [] \<Rightarrow> None
      | p # _ \<Rightarrow> Some p)"

definition get_global_properties :: "('k, 'v) type_database \<Rightarrow> property list" where
  "get_global_properties db = value_data (m_global_properties db)"

definition register_property ::
  "nat \<Rightarrow> config \<Rightarrow> ('k, 'v) type_database \<Rightarrow> type_id \<Rightarrow> property \<Rightarrow>
   ('k, 'v) type_database option" where
  "register_property fuel cfg db t prop =
     (if \<not> is_valid t then Some db
      else
        do { cls \<leftarrow> is_class db t;
             if cls then
               (if get_type_property db t (property_name prop) \<noteq> None then Some db
                else
                  let type_map = (m_type_property_map db)
                        (t \<mapsto> items_of (m_type_property_map db) t @ [prop])
                  in do { class_map \<leftarrow> update_class_list fuel cfg db t type_map
                                         (m_class_property_map db);
                          Some (db\<lparr>m_type_property_map := type_map,
                                   m_class_property_map := class_map\<rparr>) })
             else
               (if get_global_property db (property_name prop) \<noteq> None then Some db
                else Some (db\<lparr>m_global_properties :=
                       flat_multimap_insert (m_global_properties db) (property_name prop) prop\<rparr>)) })"

text \<open>
  Modelled from the spec: \<^verbatim>\<open>compare_with_type_list::compare\<close>, an exact match of the
  parameter types against the given types, pair by pair.
\<close>

definition compare_with_type_list :: "type_id list \<Rightarrow> type_id list \<Rightarrow> bool" where
  "compare_with_type_list param_list type_list = (param_list = type_list)"

definition get_type_method :: "('k, 'v) type_database \<Rightarrow> type_id \<Rightarrow> string \<Rightarrow> rttr_method option" where
  "get_type_method db t name = get_class_item method_name t name (m_type_method_map db)"

definition get_class_method :: "('k, 'v) type_database \<Rightarrow> type_id \<Rightarrow> string \<Rightarrow> rttr_method option" where
  "get_class_method db t name = get_class_item method_name t name (m_class_method_map db)"

definition get_type_method_by_types ::
  "('k, 'v) type_database \<Rightarrow> type_id \<Rightarrow> string \<Rightarrow> type_id list \<Rightarrow> rttr_method option" where
  "get_type_method_by_types db t name type_list =
     (case m_type_method_map db t of
        None \<Rightarrow> None
      | Some vec \<Rightarrow>
          find (\<lambda>meth. method_name meth = name \<and>
                  compare_with_type_list (method_parameter_types meth) type_list) vec)"

definition get_class_method_by_types ::
  "('k, 'v) type_database \<Rightarrow> type_id \<Rightarrow> string \<Rightarrow> type_id list \<Rightarrow> rttr_method option" where
  "get_class_method_by_types db t name type_list =
     (case m_class_method_map db t of
        None \<Rightarrow> None
      | Some vec \<Rightarrow>
          find (\<lambda>meth. method_name meth = name \<and>
                  compare_with_type_list (method_parameter_types meth) type_list) vec)"

definition get_class_methods :: "('k, 'v) type_database \<Rightarrow> type_id \<Rightarrow> rttr_method list" where
  "get_class_methods db t =
     (case m_class_method_map db t of
        None \<Rightarrow> []
      | Some vec \<Rightarrow> if vec \<noteq> [] then vec else [])"

definition get_global_method :: "('k, 'v) type_database \<Rightarrow> string \<Rightarrow> rttr_method option" where
  "get_global_method db name =
     (case flat_multimap_find (m_global_methods db) name of
        [] \<Rightarrow> None
      | m # _ \<Rightarrow> Some m)"

text \<open>The loop of \<^verbatim>\<open>get_global_method(name, type_list)\<close> from the position \<^verbatim>\<open>find\<close> gave.\<close>

fun scan_global_methods :: "rttr_method list \<Rightarrow> string \<Rightarrow> type_id list \<Rightarrow> rttr_method option" where
  "scan_global_methods [] name type_list = None"
| "scan_global_methods (meth # itr) name type_list =
     (if method_name meth \<noteq> name then None
      else if compare_with_type_list (method_parameter_types meth) type_list then Some meth
      else scan_global_methods itr name type_list)"

definition get_global_method_by_types ::
  "('k, 'v) type_database \<Rightarrow> string \<Rightarrow> type_id list \<Rightarrow> rttr_method option" where
  "get_global_method_by_types db name type_list =
     scan_global_methods (flat_multimap_find (m_global_methods db) name) name type_list"

definition get_global_methods :: "('k, 'v) type_database \<Rightarrow> rttr_method list" where
  "get_global_methods db = value_data (m_global_methods db)"

definition register_method ::
  "nat \<Rightarrow> config \<Rightarrow> ('k, 'v) type_database \<Rightarrow> type_id \<Rightarrow> rttr_method \<Rightarrow>
   ('k, 'v) type_database option" where
  "register_method fuel cfg db t meth =
     (if \<not> is_valid t then Some db
      else
        do { cls \<leftarrow> is_class db t;
             if cls then
               (if get_type_method_by_types db t (method_name meth)
                     (method_parameter_types meth) \<noteq> None then Some db
                else
                  let type_map = (m_type_method_map db)
                        (t \<mapsto> items_of (m_type_method_map db) t @ [meth])
                  in do { class_map \<leftarrow> update_class_list fuel cfg db t type_map
                                         (m_class_method_map db);
                          Some (db\<lparr>m_type_method_map := type_map,
                                   m_class_method_map := class_map\<rparr>) })
             else
               (if get_global_method_by_types db (method_name meth)
                     (method_parameter_types meth) \<noteq> None then Some db
                else Some (db\<lparr>m_global_methods :=
                       flat_multimap_insert (m_global_methods db) (method_name meth) meth\<rparr>)) })"

subsection \<open>Items sorted by type id\<close>

definition get_item_by_type :: "type_id \<Rightarrow> 'a type_data list \<Rightarrow> 'a option" where
  "get_item_by_type t vec =
     (case lower_bound m_id t vec of
        [] \<Rightarrow> None
      | item # _ \<Rightarrow> if m_id item = t then Some (m_data item) else None)"

definition register_item_type :: "type_id \<Rightarrow> 'a \<Rightarrow> 'a type_data list \<Rightarrow> 'a type_data list" where
  "register_item_type t new_item vec =
     (if \<not> is_valid t then vec
      else stable_sort m_id (vec @ [\<lparr>m_id = t, m_data = new_item\<rparr>]))"

subsection \<open>Constructors, destructors, enumerations\<close>

definition register_constructor ::
  "('k, 'v) type_database \<Rightarrow> type_id \<Rightarrow> constructor \<Rightarrow> ('k, 'v) type_database" where
  "register_constructor db t ctor =
     (if \<not> is_valid t then db
      else db\<lparr>m_type_ctor_map :=
             (m_type_ctor_map db)(t \<mapsto> items_of (m_type_ctor_map db) t @ [ctor])\<rparr>)"

definition get_constructor :: "('k, 'v) type_database \<Rightarrow> type_id \<Rightarrow> constructor option" where
  "get_constructor db t =
     (case m_type_ctor_map db t of
        None \<Rightarrow> None
      | Some vec \<Rightarrow> (case vec of [] \<Rightarrow> None | ctor # _ \<Rightarrow> Some ctor))"

definition get_constructor_by_types ::
  "('k, 'v) type_database \<Rightarrow> type_id \<Rightarrow> type_id list \<Rightarrow> constructor option" where
  "get_constructor_by_types db t arg_type_list =
     (case m_type_ctor_map db t of
        None \<Rightarrow> None
      | Some vec \<Rightarrow>
          find (\<lambda>ctor. compare_with_type_list (constructor_parameter_types ctor) arg_type_list)
            vec)"

definition get_constructors :: "('k, 'v) type_database \<Rightarrow> type_id \<Rightarrow> constructor list" where
  "get_constructors db t =
     (case m_type_ctor_map db t of
        None \<Rightarrow> []
      | Some vec \<Rightarrow> if vec \<noteq> [] then vec else [])"

text \<open>
  \<^verbatim>\<open>register_destructor\<close> inserts into the map whatever the type is; the insertion of a
  \<^verbatim>\<open>std::unordered_map\<close> takes effect when the key has no entry yet.
\<close>

definition register_destructor ::
  "('k, 'v) type_database \<Rightarrow> type_id \<Rightarrow> destructor \<Rightarrow> ('k, 'v) type_database" where
  "register_destructor db t dtor =
     (case m_type_dtor_map db t of
        None \<Rightarrow> db\<lparr>m_type_dtor_map := (m_type_dtor_map db)(t \<mapsto> dtor)\<rparr>
      | Some _ \<Rightarrow> db)"

definition get_destructor :: "('k, 'v) type_database \<Rightarrow> type_id \<Rightarrow> destructor option" where
  "get_destructor db t = m_type_dtor_map db t"

definition register_enumeration ::
  "('k, 'v) type_database \<Rightarrow> type_id \<Rightarrow> nat \<Rightarrow> ('k, 'v) type_database" where
  "register_enumeration db t enum_item =
     db\<lparr>m_enumeration_list := register_item_type t enum_item (m_enumeration_list db)\<rparr>"

definition get_enumeration :: "('k, 'v) type_database \<Rightarrow> type_id \<Rightarrow> nat option" where
  "get_enumeration db t = get_item_by_type t (m_enumeration_list db)"

subsection \<open>Metadata\<close>

definition get_metadata_list ::
  "('k::linorder, 'v) type_database \<Rightarrow> type_id \<Rightarrow> ('k, 'v) metadata list option" where
  "get_metadata_list db t = get_item_by_type t (m_metadata_type_list db)"

text \<open>\<^verbatim>\<open>get_metadata(key, data)\<close>, the lookup in one vector.\<close>

definition get_metadata_in :: "'k::linorder \<Rightarrow> ('k, 'v) metadata list \<Rightarrow> 'v option" where
  "get_metadata_in key data =
     (case lower_bound m_key key data of
        [] \<Rightarrow> None
      | item # _ \<Rightarrow> if m_key item = key then m_value item else None)"

definition get_metadata :: "('k::linorder, 'v) type_database \<Rightarrow> type_id \<Rightarrow> 'k \<Rightarrow> 'v option" where
  "get_metadata db t key =
     (case get_metadata_list db t of
        None \<Rightarrow> None
      | Some meta_vec \<Rightarrow> get_metadata_in key meta_vec)"

text \<open>
  \<^verbatim>\<open>register_metadata\<close>. When the type has no vector yet, a new one is made from \<open>data\<close>
  as it is and registered. After that the function declares
  \<^verbatim>\<open>auto meta_vec_ref = *meta_vec;\<close>: the type that \<^verbatim>\<open>auto\<close> gives is the vector, not a
  reference to it, so \<^verbatim>\<open>meta_vec_ref\<close> is a copy. The loop that adds the items with new
  keys and the sort by key work on this copy, which is destroyed when the function returns;
  nothing of them reaches the registry, and the model has no term for them.
\<close>

definition register_metadata ::
  "('k::linorder, 'v) type_database \<Rightarrow> type_id \<Rightarrow> ('k, 'v) metadata list \<Rightarrow>
   ('k, 'v) type_database" where
  "register_metadata db t data =
     (if \<not> is_valid t \<or> data = [] then db
      else
        (case get_metadata_list db t of
           None \<Rightarrow>
             db\<lparr>m_metadata_type_list := register_item_type t data (m_metadata_type_list db)\<rparr>
         | Some meta_vec \<Rightarrow> db))"

subsection \<open>Converters and comparators\<close>

fun scan_converters ::
  "type_converter_base type_data list \<Rightarrow> type_id \<Rightarrow> type_id \<Rightarrow> type_converter_base option" where
  "scan_converters [] src_id target_id = None"
| "scan_converters (item # itr) src_id target_id =
     (if m_id item \<noteq> src_id then None
      else if m_target_type (m_data item) = target_id then Some (m_data item)
      else scan_converters itr src_id target_id)"

definition get_converter ::
  "('k, 'v) type_database \<Rightarrow> type_id \<Rightarrow> type_id \<Rightarrow> type_converter_base option" where
  "get_converter db source_type target_type =
     scan_converters (lower_bound m_id source_type (m_type_converter_list db))
       source_type target_type"

definition register_converter ::
  "('k, 'v) type_database \<Rightarrow> type_id \<Rightarrow> type_converter_base \<Rightarrow> ('k, 'v) type_database" where
  "register_converter db t converter =
     (if \<not> is_valid t then db
      else if get_converter db t (m_target_type converter) \<noteq> None then db
      else db\<lparr>m_type_converter_list :=
             stable_sort m_id (m_type_converter_list db @ [\<lparr>m_id = t, m_data = converter\<rparr>])\<rparr>)"

definition register_comparator ::
  "('k, 'v) type_database \<Rightarrow> type_id \<Rightarrow> nat \<Rightarrow> ('k, 'v) type_database" where
  "register_comparator db t comparator =
     (if \<not> is_valid t then db
      else db\<lparr>m_type_comparator_list :=
             stable_sort m_id (m_type_comparator_list db @ [\<lparr>m_id = t, m_data = comparator\<rparr>])\<rparr>)"

definition get_comparator :: "('k, 'v) type_database \<Rightarrow> type_id \<Rightarrow> nat option" where
  "get_comparator db t =
     (case lower_bound m_id t (m_type_comparator_list db) of
        [] \<Rightarrow> None
      | item # _ \<Rightarrow> if m_id item = t then Some (m_data item) else None)"

subsection \<open>Names\<close>

definition remove_whitespaces :: "string \<Rightarrow> string" where
  "remove_whitespaces text = filter (\<lambda>c. \<not> isspace c) text"

text \<open>
  In the next two functions the tests for \<^verbatim>\<open>npos\<close> and for a position beyond the text that
  follow the arithmetic never hold after a successful \<^verbatim>\<open>find\<close>, except that
  \<^verbatim>\<open>found_pos - 1\<close> wraps to \<^verbatim>\<open>npos\<close> at position 0. \<^verbatim>\<open>text[text.length()]\<close> is the
  terminating zero, not a space.
\<close>

definition is_space_after :: "string \<Rightarrow> string \<Rightarrow> bool" where
  "is_space_after text part =
     (case str_find text part of
        None \<Rightarrow> False
      | Some found_pos \<Rightarrow>
          found_pos + length part < length text \<and> isspace (text ! (found_pos + length part)))"

definition is_space_before :: "string \<Rightarrow> string \<Rightarrow> bool" where
  "is_space_before text part =
     (case find_last_of text part of
        None \<Rightarrow> False
      | Some found_pos \<Rightarrow> found_pos \<noteq> 0 \<and> isspace (text ! (found_pos - 1)))"

definition insert_space_after :: "string \<Rightarrow> string \<Rightarrow> string" where
  "insert_space_after text part =
     (case str_find text part of
        None \<Rightarrow> text
      | Some found_pos \<Rightarrow> str_insert text (found_pos + length part) '' '')"

definition insert_space_before :: "string \<Rightarrow> string \<Rightarrow> string" where
  "insert_space_before text part =
     (case find_last_of text part of
        None \<Rightarrow> text
      | Some found_pos \<Rightarrow> str_insert text found_pos '' '')"

definition derive_name :: "string \<Rightarrow> string \<Rightarrow> string \<Rightarrow> string" where
  "derive_name src_name raw_name custom_name =
     (let tmp_src_name = remove_whitespaces src_name;
          tmp_raw_name = remove_whitespaces raw_name
      in case str_find tmp_src_name tmp_raw_name of
           None \<Rightarrow> src_name
         | Some start_pos \<Rightarrow>
             let end_pos = start_pos + length tmp_raw_name;
                 start_part = take start_pos tmp_src_name;
                 end_part = drop end_pos tmp_src_name;
                 replaced = start_part @ custom_name @ end_part;
                 spaced = (if is_space_after src_name start_part
                           then insert_space_after replaced start_part else replaced)
             in if is_space_before src_name end_part
                then insert_space_before spaced end_part else spaced)"

text \<open>\<^verbatim>\<open>derive_name(array_raw_type, name)\<close>.\<close>

definition derive_name_of ::
  "config \<Rightarrow> ('k, 'v) type_database \<Rightarrow> type_id \<Rightarrow> string \<Rightarrow> string option" where
  "derive_name_of cfg db array_raw_type name =
     (if \<not> is_valid array_raw_type then Some (normalize_orig_name cfg name)
      else
        do { custom_name \<leftarrow> at (m_custom_names db) array_raw_type;
             raw_name \<leftarrow> at (m_orig_names db) array_raw_type;
             Some (derive_name (normalize_orig_name cfg name)
                     (normalize_orig_name cfg raw_name) custom_name) })"

text \<open>
  The loop of \<^verbatim>\<open>register_name\<close> over the entries with the hash of the name: \<open>Some None\<close>
  when it ends without a match, \<open>Some (Some id')\<close> at a match with the id \<open>id'\<close>.
\<close>

fun scan_orig_names :: "name_to_id list \<Rightarrow> string list \<Rightarrow> nat \<Rightarrow> string \<Rightarrow> type_id option option" where
  "scan_orig_names [] names hash_value name = Some None"
| "scan_orig_names (item # itr) names hash_value name =
     (if m_hash_value item \<noteq> hash_value then Some None
      else
        do { orig_name \<leftarrow> at names (m_name_id item);
             if orig_name = name then Some (Some (m_name_id item))
             else scan_orig_names itr names hash_value name })"

text \<open>
  \<^verbatim>\<open>register_name\<close> returns whether the name was known, and the id. The id it hands back
  is a \<^verbatim>\<open>uint16_t\<close>, and the counter it is copied from is taken to be one as well: the
  increment is modulo \<open>2 ^ 16\<close>. The theorems about new registrations assume a counter below
  65535, where the increment does not wrap.
\<close>

definition register_name ::
  "config \<Rightarrow> ('k, 'v) type_database \<Rightarrow> string \<Rightarrow> type_id \<Rightarrow>
   (bool \<times> type_id \<times> ('k, 'v) type_database) option" where
  "register_name cfg db name array_raw_type =
     (let hash_value = generate_hash cfg name
      in do {
        found \<leftarrow> scan_orig_names (lower_bound m_hash_value hash_value (m_orig_name_to_id db))
                   (m_orig_names db) hash_value name;
        case found of
          Some id' \<Rightarrow> Some (True, id', db)
        | None \<Rightarrow>
            let counter = (m_type_id_counter db + 1) mod 65536;
                db1 = db\<lparr>m_type_id_counter := counter,
                         m_orig_name_to_id := std_sort m_hash_value
                           (m_orig_name_to_id db @
                              [\<lparr>m_name_id = counter, m_hash_value = hash_value\<rparr>]),
                         m_orig_names := m_orig_names db @ [name]\<rparr>
            in do {
              custom_name \<leftarrow> derive_name_of cfg db1 array_raw_type name;
              Some (False, counter,
                    db1\<lparr>m_custom_name_to_id := std_sort m_hash_value
                           (m_custom_name_to_id db1 @
                              [\<lparr>m_name_id = counter,
                                m_hash_value = generate_hash cfg custom_name\<rparr>]),
                        m_custom_names := m_custom_names db1 @ [custom_name],
                        m_type_list := m_type_list db1 @ [counter]\<rparr>) } })"

subsection \<open>Base classes\<close>

text \<open>
  The first loop of \<^verbatim>\<open>register_base_class_info\<close> walks the vector with a reverse iterator,
  from the last element to the first. A base type that is not yet in \<^verbatim>\<open>double_entries\<close> is
  entered there and its element stays; otherwise the element under the iterator is erased.
  The function below takes the elements in the order of the walk and collects those that
  stay, each in front of the ones that stayed before it.
\<close>

fun remove_double_entries ::
  "base_class_info list \<Rightarrow> type_id set \<Rightarrow> base_class_info list \<Rightarrow> base_class_info list" where
  "remove_double_entries [] double_entries kept = kept"
| "remove_double_entries (e # itr) double_entries kept =
     (if m_base_type e \<notin> double_entries
      then remove_double_entries itr (insert (m_base_type e) double_entries) (e # kept)
      else remove_double_entries itr double_entries kept)"

text \<open>The loop that stores the base classes and their cast functions from \<open>pos\<close> onwards.\<close>

fun store_base_classes ::
  "base_class_info list \<Rightarrow> nat \<Rightarrow> type_id list \<Rightarrow> nat list \<Rightarrow> (type_id list \<times> nat list) option" where
  "store_base_classes [] pos base_list conv_list = Some (base_list, conv_list)"
| "store_base_classes (b # bs) pos base_list conv_list =
     do { base_list' \<leftarrow> put base_list pos (m_base_type b);
          conv_list' \<leftarrow> put conv_list pos (m_rttr_cast_func b);
          store_base_classes bs (Suc pos) base_list' conv_list' }"

text \<open>
  The inner loop over one row of the derived classes: the source type goes into the first
  slot that holds the invalid id; when the \<open>n\<close> slots are all taken, nothing is stored.
  The outer loop takes the row of the raw type of each base class, which
  \<^verbatim>\<open>get_raw_type\<close> reads from \<^verbatim>\<open>m_raw_type_list\<close>.
\<close>

fun store_derived_class :: "type_id list \<Rightarrow> nat \<Rightarrow> nat \<Rightarrow> type_id \<Rightarrow> type_id list option" where
  "store_derived_class derived_list pos 0 src_type = Some derived_list"
| "store_derived_class derived_list pos (Suc n) src_type =
     do { d \<leftarrow> at derived_list pos;
          if d = m_invalid_id then put derived_list pos src_type
          else store_derived_class derived_list (Suc pos) n src_type }"

fun store_derived_classes ::
  "config \<Rightarrow> type_id list \<Rightarrow> base_class_info list \<Rightarrow> type_id list \<Rightarrow> type_id \<Rightarrow>
   type_id list option" where
  "store_derived_classes cfg raw_list [] derived_list src_type = Some derived_list"
| "store_derived_classes cfg raw_list (b # bs) derived_list src_type =
     do { raw_id \<leftarrow> at raw_list (m_base_type b);
          derived_list' \<leftarrow> store_derived_class derived_list
                            (RTTR_MAX_INHERIT_TYPES_COUNT cfg * raw_id)
                            (RTTR_MAX_INHERIT_TYPES_COUNT cfg) src_type;
          store_derived_classes cfg raw_list bs derived_list' src_type }"

text \<open>
  After the removal no two elements have the same base type, so the \<^verbatim>\<open>std::sort\<close> by the id
  of the base type has one possible result.
\<close>

definition register_base_class_info ::
  "config \<Rightarrow> ('k, 'v) type_database \<Rightarrow> type_id \<Rightarrow> type_id \<Rightarrow> base_class_info list \<Rightarrow>
   ('k, 'v) type_database option" where
  "register_base_class_info cfg db src_type raw_type base_classes =
     (let bases = std_sort m_base_type (remove_double_entries (rev base_classes) {} []);
          width = RTTR_MAX_INHERIT_TYPES_COUNT cfg;
          row = width * raw_type;
          base_list = resize (m_base_class_list db)
                        (max (length (m_base_class_list db)) (row + width)) m_invalid_id;
          conv_list = resize (m_conversion_list db)
                        (max (length (m_conversion_list db)) (row + width)) 0
      in do {
        (base_list', conv_list') \<leftarrow> store_base_classes bases row base_list conv_list;
        let derived_list = resize (m_derived_class_list db)
                             (max (length (m_derived_class_list db)) (row + width))
                             m_invalid_id;
        derived_list' \<leftarrow> store_derived_classes cfg (m_raw_type_list db) bases derived_list
                          src_type;
        Some (db\<lparr>m_base_class_list := base_list',
                 m_conversion_list := conv_list',
                 m_derived_class_list := derived_list'\<rparr>) })"

subsection \<open>Registering a type\<close>

text \<open>
  The arguments of \<^verbatim>\<open>register_type\<close>, under their names with the prefix \<open>arg_\<close>. The
  function begins with \<^verbatim>\<open>type::init_globals()\<close>, which is declared elsewhere and touches no
  member of the registry; the lock that follows it is commented out in the source.
\<close>

record register_type_args =
  arg_name :: string
  arg_raw_type :: type_id
  arg_wrapped_type :: type_id
  arg_array_raw_type :: type_id
  arg_base_classes :: "base_class_info list"
  arg_derived_func_ptr :: nat
  arg_var_func_ptr :: nat
  arg_type_size :: nat
  arg_is_class :: bool
  arg_is_enum :: bool
  arg_is_array :: bool
  arg_is_pointer :: bool
  arg_is_arithmetic :: bool
  arg_is_function_pointer :: bool
  arg_is_member_object_pointer :: bool
  arg_is_member_function_pointer :: bool
  arg_pointer_dimension :: nat

definition register_type ::
  "config \<Rightarrow> ('k, 'v) type_database \<Rightarrow> register_type_args \<Rightarrow>
   (type_id \<times> ('k, 'v) type_database) option" where
  "register_type cfg db a =
     do { (isAlreadyRegistered, id', db1) \<leftarrow>
            register_name cfg db (arg_name a) (arg_array_raw_type a);
          if isAlreadyRegistered then Some (id', db1)
          else
            let raw_id = (if arg_raw_type a = 0 then id' else arg_raw_type a);
                derived_info = resize (m_get_derived_info_func_list db1)
                                 (max (length (m_get_derived_info_func_list db1)) (raw_id + 1)) 0;
                db2 = db1\<lparr>
                  m_raw_type_list := m_raw_type_list db1 @ [raw_id],
                  m_wrapped_type_list := m_wrapped_type_list db1 @ [arg_wrapped_type a],
                  m_array_raw_type_list := m_array_raw_type_list db1 @
                    [if arg_array_raw_type a = 0 then id' else arg_array_raw_type a],
                  m_get_derived_info_func_list := derived_info[raw_id := arg_derived_func_ptr a],
                  m_variant_create_func_list :=
                    m_variant_create_func_list db1 @ [arg_var_func_ptr a],
                  m_type_size := m_type_size db1 @ [arg_type_size a],
                  m_is_class_list := m_is_class_list db1 @ [arg_is_class a],
                  m_is_enum_list := m_is_enum_list db1 @ [arg_is_enum a],
                  m_is_array_list := m_is_array_list db1 @ [arg_is_array a],
                  m_is_pointer_list := m_is_pointer_list db1 @ [arg_is_pointer a],
                  m_is_arithmetic_list := m_is_arithmetic_list db1 @ [arg_is_arithmetic a],
                  m_is_function_pointer_list :=
                    m_is_function_pointer_list db1 @ [arg_is_function_pointer a],
                  m_is_member_object_pointer_list :=
                    m_is_member_object_pointer_list db1 @ [arg_is_member_object_pointer a],
                  m_is_member_function_pointer_list :=
                    m_is_member_function_pointer_list db1 @ [arg_is_member_function_pointer a],
                  m_pointer_dim_list := m_pointer_dim_list db1 @ [arg_pointer_dimension a]\<rparr>
            in do { db3 \<leftarrow> register_base_class_info cfg db2 id' raw_id (arg_base_classes a);
                    Some (id', db3) } }"

text \<open>A run of \<^verbatim>\<open>register_type\<close> calls, one after the other.\<close>

fun register_types ::
  "config \<Rightarrow> ('k, 'v) type_database \<Rightarrow> register_type_args list \<Rightarrow>
   ('k, 'v) type_database option" where
  "register_types cfg db [] = Some db"
| "register_types cfg db (a # calls) =
     do { (id', db') \<leftarrow> register_type cfg db a;
          register_types cfg db' calls }"

fun scan_custom_names :: "name_to_id list \<Rightarrow> string list \<Rightarrow> nat \<Rightarrow> string \<Rightarrow> type_id option" where
  "scan_custom_names [] names hash_value name = Some m_invalid_id"
| "scan_custom_names (item # itr) names hash_value name =
     (if m_hash_value item \<noteq> hash_value then Some m_invalid_id
      else
        do { custom_name \<leftarrow> at names (m_name_id item);
             if custom_name = name then Some (m_name_id item)
             else scan_custom_names itr names hash_value name })"

definition get_by_name :: "config \<Rightarrow> ('k, 'v) type_database \<Rightarrow> string \<Rightarrow> type_id option" where
  "get_by_name cfg db name =
     scan_custom_names
       (lower_bound m_hash_value (generate_hash cfg name) (m_custom_name_to_id db))
       (m_custom_names db) (generate_hash cfg name) name"

text \<open>
  The loop of \<^verbatim>\<open>register_custom_name\<close> over the custom-name index. \<^verbatim>\<open>custom_ref\<close> is a
  reference to the custom name of \<open>t\<close>, read anew at every use.
\<close>

fun rename_derived_names ::
  "config \<Rightarrow> type_id list \<Rightarrow> type_id \<Rightarrow> string \<Rightarrow> name_to_id list \<Rightarrow> string list \<Rightarrow>
   (string list \<times> name_to_id list) option" where
  "rename_derived_names cfg array_raw t raw_name [] names = Some (names, [])"
| "rename_derived_names cfg array_raw t raw_name (e # es) names =
     do { a \<leftarrow> at array_raw (m_name_id e);
          if a = t then
            do { src_name \<leftarrow> at names (m_name_id e);
                 custom_ref \<leftarrow> at names t;
                 names' \<leftarrow> put names (m_name_id e) (derive_name src_name raw_name custom_ref);
                 new_name \<leftarrow> at names' (m_name_id e);
                 (names'', es') \<leftarrow> rename_derived_names cfg array_raw t raw_name es names';
                 Some (names'', e\<lparr>m_hash_value := generate_hash cfg new_name\<rparr> # es') }
          else
            do { (names'', es') \<leftarrow> rename_derived_names cfg array_raw t raw_name es names;
                 Some (names'', e # es') } }"

definition register_custom_name ::
  "config \<Rightarrow> ('k, 'v) type_database \<Rightarrow> type_id \<Rightarrow> string \<Rightarrow> ('k, 'v) type_database option" where
  "register_custom_name cfg db t custom_name =
     (if \<not> is_valid t then Some db
      else
        do { names \<leftarrow> put (m_custom_names db) t custom_name;
             orig_name \<leftarrow> at (m_orig_names db) t;
             (names', index) \<leftarrow> rename_derived_names cfg (m_array_raw_type_list db) t
                                 (normalize_orig_name cfg orig_name)
                                 (m_custom_name_to_id db) names;
             Some (db\<lparr>m_custom_names := names',
                      m_custom_name_to_id := std_sort m_hash_value index\<rparr>) })"

subsection \<open>A small registry for the examples\<close>

text \<open>
  The examples take the length of a name for its hash, so that names collide, leave the
  names as they are, and give an inheritance row three slots. \<open>example_class\<close> are the
  arguments that register a class which is its own raw type.
\<close>

definition example_config :: config where
  "example_config =
     \<lparr>generate_hash = length, normalize_orig_name = (\<lambda>s. s), RTTR_MAX_INHERIT_TYPES_COUNT = 3\<rparr>"

definition example_class :: "string \<Rightarrow> base_class_info list \<Rightarrow> register_type_args" where
  "example_class n bs =
     \<lparr>arg_name = n, arg_raw_type = 0, arg_wrapped_type = 0, arg_array_raw_type = 0,
      arg_base_classes = bs, arg_derived_func_ptr = 0, arg_var_func_ptr = 0, arg_type_size = 8,
      arg_is_class = True, arg_is_enum = False, arg_is_array = False, arg_is_pointer = False,
      arg_is_arithmetic = False, arg_is_function_pointer = False,
      arg_is_member_object_pointer = False, arg_is_member_function_pointer = False,
      arg_pointer_dimension = 0\<rparr>"

text \<open>The registry after the class \<open>A\<close> has been registered; \<open>A\<close> has the id 1.\<close>

definition one_class :: "(nat, nat) type_database" where
  "one_class =
     snd (the (register_type example_config new_type_database (example_class ''A'' [])))"

definition example_base :: "type_id \<Rightarrow> nat \<Rightarrow> base_class_info" where
  "example_base b f = \<lparr>m_base_type = b, m_rttr_cast_func = f\<rparr>"

text \<open>
  The registry after a second class \<open>D\<close> (id 2) has been registered whose list of base
  classes names \<open>A\<close> twice, first with the cast function 11 and then with 22.
\<close>

definition diamond :: "(nat, nat) type_database" where
  "diamond =
     snd (the (register_type example_config one_class
                 (example_class ''D'' [example_base 1 11, example_base 1 22])))"

text \<open>
  The type \<open>void\<close>, which is not a class and under which the global properties and methods
  are registered, alone in a registry (id 1); and that registry after two global properties
  of the name \<open>x\<close> have been registered.
\<close>

definition example_void :: register_type_args where
  "example_void = (example_class ''void'' [])\<lparr>arg_type_size := 0, arg_is_class := False\<rparr>"

definition void_only :: "(nat, nat) type_database" where
  "void_only = snd (the (register_type example_config new_type_database example_void))"

definition two_global_properties :: "(nat, nat) type_database" where
  "two_global_properties =
     the (register_property 0 example_config
            (the (register_property 0 example_config void_only 1
                    \<lparr>property_name = ''x'', property_wrapper = 1\<rparr>))
            1 \<lparr>property_name = ''x'', property_wrapper = 2\<rparr>)"

subsection \<open>Well-formed name index\<close>

text \<open>
  The lengths of the sixteen vectors that the type id indexes directly: the original and
  the custom names, the raw, wrapped and array-raw type ids, the variant-create functions,
  the sizes, the eight classification flags and the pointer dimensions.
\<close>

definition attribute_table_lengths :: "('k, 'v) type_database \<Rightarrow> nat list" where
  "attribute_table_lengths db =
     [length (m_orig_names db), length (m_custom_names db), length (m_raw_type_list db),
      length (m_wrapped_type_list db), length (m_array_raw_type_list db),
      length (m_variant_create_func_list db), length (m_type_size db),
      length (m_is_class_list db), length (m_is_enum_list db), length (m_is_array_list db),
      length (m_is_pointer_list db), length (m_is_arithmetic_list db),
      length (m_is_function_pointer_list db), length (m_is_member_object_pointer_list db),
      length (m_is_member_function_pointer_list db), length (m_pointer_dim_list db)]"

text \<open>The names registered so far: all original names but the dummy of the invalid type.\<close>

definition registered_names :: "('k, 'v) type_database \<Rightarrow> string set" where
  "registered_names db = set (tl (m_orig_names db))"

text \<open>
  What every registry built by \<^verbatim>\<open>register_type\<close> satisfies while the counter has not
  wrapped: the index of the original names is sorted by hash and holds one entry for each
  id from 1 to the counter, with the hash of the name of that id; no name is registered
  twice; the sixteen vectors have the counter plus one elements.
\<close>

definition registry_ok :: "config \<Rightarrow> ('k, 'v) type_database \<Rightarrow> bool" where
  "registry_ok cfg db \<longleftrightarrow>
     sorted (map m_hash_value (m_orig_name_to_id db)) \<and>
     set (m_orig_name_to_id db) =
       (\<lambda>i. \<lparr>m_name_id = i, m_hash_value = generate_hash cfg (m_orig_names db ! i)\<rparr>) `
         {1..m_type_id_counter db} \<and>
     distinct (tl (m_orig_names db)) \<and>
     list_all (\<lambda>n. n = m_type_id_counter db + 1) (attribute_table_lengths db)"

subsection \<open>Class-level vectors\<close>

text \<open>
  The vector that \<^verbatim>\<open>update_class_list\<close> stores for a type: what its base classes declare,
  in the order of the row, and then what the type itself declares.
\<close>

definition class_items ::
  "config \<Rightarrow> ('k, 'v) type_database \<Rightarrow> (type_id \<rightharpoonup> 'a list) \<Rightarrow> type_id \<Rightarrow> 'a list" where
  "class_items cfg db type_map t =
     (case get_base_classes cfg db t of
        None \<Rightarrow> []
      | Some base_classes \<Rightarrow>
          concat (map (items_of type_map) base_classes) @ items_of type_map t)"

text \<open>
  A condition under which the recursion of \<^verbatim>\<open>update_class_list\<close> ends, for the types
  below \<open>n\<close>: every type has a raw type below \<open>n\<close> and readable rows, and every entry of
  its derived-class row is a type below \<open>n\<close> whose raw type has a greater id. It holds
  when every class is registered after its base classes and is its own raw type.
\<close>

definition inheritance_ok :: "config \<Rightarrow> ('k, 'v) type_database \<Rightarrow> nat \<Rightarrow> bool" where
  "inheritance_ok cfg db n \<longleftrightarrow>
     (\<forall>t\<in>{..<n}.
        case get_raw_type db t of
          None \<Rightarrow> False
        | Some raw_id \<Rightarrow>
            raw_id < n \<and> get_base_classes cfg db t \<noteq> None \<and>
            (case get_derived_classes cfg db t of
               None \<Rightarrow> False
             | Some derived_classes \<Rightarrow>
                 \<forall>d\<in>set derived_classes. d < n \<and>
                   (case get_raw_type db d of
                      None \<Rightarrow> False
                    | Some raw_id' \<Rightarrow> raw_id < raw_id')))"

text \<open>
  The registry with the classes \<open>A\<close> (1), \<open>B\<close> (2) and \<open>T\<close> (3), where \<open>T\<close> is registered
  with the base classes \<open>B\<close> and \<open>A\<close>, in this order; and the same registry after the
  property \<open>t\<close> has been registered on \<open>T\<close> and the property \<open>b\<close> on \<open>B\<close>.
\<close>

definition three_classes :: "(nat, nat) type_database" where
  "three_classes =
     the (register_types example_config new_type_database
            [example_class ''A'' [], example_class ''B'' [],
             example_class ''T'' [example_base 2 22, example_base 1 11]])"

definition three_classes_with_properties :: "(nat, nat) type_database" where
  "three_classes_with_properties =
     the (register_property 4 example_config
            (the (register_property 4 example_config three_classes 3
                    \<lparr>property_name = ''t'', property_wrapper = 30\<rparr>))
            2 \<lparr>property_name = ''b'', property_wrapper = 20\<rparr>)"

text \<open>
  A registry in which the derived-class row of a class is full: the classes \<open>A\<close> (1) and
  \<open>B\<close> (2), then \<open>C\<close> (3), \<open>D\<close> (4) and \<open>E\<close> (5), each with the base class \<open>A\<close>, which
  take the three slots of the row of \<open>A\<close>, and last \<open>T\<close> (6), registered with the base
  classes \<open>B\<close> and \<open>A\<close>. \<open>six_classes_x\<close> is that registry after the property \<open>x\<close> has been
  registered on \<open>A\<close>; \<open>six_classes_t\<close>, \<open>six_classes_tb\<close> and \<open>six_classes_tba\<close> are the
  registries after the property \<open>t\<close> has been registered on \<open>T\<close>, then \<open>b\<close> on \<open>B\<close>, then
  \<open>a\<close> on \<open>A\<close>.
\<close>

definition six_classes :: "(nat, nat) type_database" where
  "six_classes =
     the (register_types example_config new_type_database
            [example_class ''A'' [], example_class ''B'' [],
             example_class ''C'' [example_base 1 11], example_class ''D'' [example_base 1 11],
             example_class ''E'' [example_base 1 11],
             example_class ''T'' [example_base 2 22, example_base 1 11]])"

definition six_classes_x :: "(nat, nat) type_database" where
  "six_classes_x =
     the (register_property 7 example_config six_classes 1
            \<lparr>property_name = ''x'', property_wrapper = 10\<rparr>)"

definition six_classes_t :: "(nat, nat) type_database" where
  "six_classes_t =
     the (register_property 7 example_config six_classes 6
            \<lparr>property_name = ''t'', property_wrapper = 30\<rparr>)"

definition six_classes_tb :: "(nat, nat) type_database" where
  "six_classes_tb =
     the (register_property 7 example_config six_classes_t 2
            \<lparr>property_name = ''b'', property_wrapper = 20\<rparr>)"

definition six_classes_tba :: "(nat, nat) type_database" where
  "six_classes_tba =
     the (register_property 7 example_config six_classes_tb 1
            \<lparr>property_name = ''a'', property_wrapper = 10\<rparr>)"

subsection \<open>Derived-class rows\<close>

text \<open>Entries of the derived-class list only change from the invalid id to the source type.\<close>

definition grows_to :: "type_id \<Rightarrow> type_id list \<Rightarrow> type_id list \<Rightarrow> bool" where
  "grows_to src dl dl' \<longleftrightarrow>
     length dl' = length dl \<and>
     (\<forall>k<length dl. dl' ! k = dl ! k \<or> (dl ! k = m_invalid_id \<and> dl' ! k = src))"

text \<open>The source type stands in the row, with no invalid entry before it.\<close>

definition in_row :: "type_id \<Rightarrow> type_id list \<Rightarrow> nat \<Rightarrow> nat \<Rightarrow> bool" where
  "in_row src dl pos n \<longleftrightarrow>
     (\<exists>j<n. pos + j < length dl \<and> dl ! (pos + j) = src \<and>
        (\<forall>i<j. dl ! (pos + i) \<noteq> m_invalid_id))"

section \<open>Properties\<close>

subsection \<open>Lookups in vectors sorted by a key\<close>

text \<open>
  On a vector sorted by the key, the lower bound followed by the test of the key finds the
  first element with that key; a stable sort does not change which one that is.
\<close>

lemma lower_bound_find:
  "sorted (map f xs) \<Longrightarrow>
   (case lower_bound f k xs of [] \<Rightarrow> None | y # _ \<Rightarrow> if f y = k then Some y else None)
   = find (\<lambda>x. f x = k) xs"
  unfolding lower_bound_def
proof (induction xs)
  case Nil
  then show ?case by simp
next
  case (Cons x xs)
  show ?case
  proof (cases "f x < k")
    case True
    with Cons show ?thesis by auto
  next
    case False
    show ?thesis
    proof (cases "f x = k")
      case True
      then show ?thesis by simp
    next
      case ne: False
      with False have gt: "k < f x" by simp
      from Cons.prems have "\<forall>y\<in>set xs. f x \<le> f y" by simp
      with gt have "\<forall>y\<in>set xs. f y \<noteq> k" by auto
      then have "find (\<lambda>x. f x = k) xs = None" by (simp add: find_None_iff)
      with False ne show ?thesis by simp
    qed
  qed
qed

lemma find_filter: "find P xs = (case filter P xs of [] \<Rightarrow> None | y # _ \<Rightarrow> Some y)"
  by (induction xs) auto

lemma find_sort_key: "find (\<lambda>x. f x = k) (sort_key f xs) = find (\<lambda>x. f x = k) xs"
  by (simp add: find_filter sort_key_stable)

lemma find_append:
  "find P (xs @ ys) = (case find P xs of None \<Rightarrow> find P ys | Some x \<Rightarrow> Some x)"
  by (induction xs) auto

lemma get_item_by_type_sorted:
  "get_item_by_type t (sort_key m_id xs) = map_option m_data (find (\<lambda>x. m_id x = t) xs)"
proof -
  have "get_item_by_type t (sort_key m_id xs) =
        map_option m_data (case lower_bound m_id t (sort_key m_id xs) of [] \<Rightarrow> None
           | y # _ \<Rightarrow> if m_id y = t then Some y else None)"
    by (simp add: get_item_by_type_def split: list.splits)
  also have "\<dots> = map_option m_data (find (\<lambda>x. m_id x = t) (sort_key m_id xs))"
    by (simp add: lower_bound_find)
  finally show ?thesis by (simp add: find_sort_key)
qed

lemma get_item_by_type_in_set:
  assumes "get_item_by_type t vec = Some x"
  shows "t \<in> m_id ` set vec"
proof (cases "lower_bound m_id t vec")
  case Nil
  with assms show ?thesis by (simp add: get_item_by_type_def)
next
  case (Cons item rest)
  with assms have "m_id item = t" by (simp add: get_item_by_type_def split: if_splits)
  moreover have "item \<in> set vec"
    using Cons set_dropWhileD [of item "\<lambda>x. m_id x < t" vec] by (simp add: lower_bound_def)
  ultimately show ?thesis by auto
qed

subsection \<open>The example registry\<close>

lemma replicate_numeral: "replicate (numeral k) x = x # replicate (pred_numeral k) x"
  by (simp add: numeral_eq_Suc)

lemma store_derived_class_numeral:
  "store_derived_class derived_list pos (numeral k) src_type =
     do { d \<leftarrow> at derived_list pos;
          if d = m_invalid_id then put derived_list pos src_type
          else store_derived_class derived_list (Suc pos) (pred_numeral k) src_type }"
  by (simp add: numeral_eq_Suc)

lemma read_row_numeral:
  "read_row v pos (numeral k) =
     (case at v pos of
        None \<Rightarrow> None
      | Some b \<Rightarrow>
          if b = m_invalid_id then Some []
          else map_option ((#) b) (read_row v (Suc pos) (pred_numeral k)))"
  by (simp add: numeral_eq_Suc)

lemmas eval_defs =
  register_type_def register_name_def new_type_database_def example_config_def
  example_class_def example_base_def example_void_def lower_bound_def derive_name_of_def
  is_valid_def m_invalid_id_def register_base_class_info_def resize_def Let_def at_def put_def
  replicate_numeral store_derived_class_numeral read_row_numeral

lemma one_class_registered:
  "register_type example_config (new_type_database :: (nat, nat) type_database)
     (example_class ''A'' []) \<noteq> None"
  by (simp add: eval_defs)

lemma one_class_lists:
  "m_type_comparator_list one_class = []" "m_metadata_type_list one_class = []"
  by (simp_all add: one_class_def eval_defs)

lemma one_class_eq:
  "one_class =
     \<lparr> m_type_id_counter = 1,
       m_type_list = [0, 1],
       m_orig_names = [''!invalid_type!'', ''A''],
       m_custom_names = [''!invalid_type!'', ''A''],
       m_orig_name_to_id = [\<lparr>m_name_id = 1, m_hash_value = 1\<rparr>],
       m_custom_name_to_id = [\<lparr>m_name_id = 1, m_hash_value = 1\<rparr>],
       m_base_class_list = [0, 0, 0, 0, 0, 0],
       m_derived_class_list = [0, 0, 0, 0, 0, 0],
       m_conversion_list = [0, 0, 0, 0, 0, 0],
       m_get_derived_info_func_list = [0, 0],
       m_raw_type_list = [0, 1],
       m_wrapped_type_list = [0, 0],
       m_array_raw_type_list = [0, 1],
       m_variant_create_func_list = [0, 0],
       m_type_size = [0, 8],
       m_is_class_list = [False, True],
       m_is_enum_list = [False, False],
       m_is_array_list = [False, False],
       m_is_pointer_list = [False, False],
       m_is_arithmetic_list = [False, False],
       m_is_function_pointer_list = [False, False],
       m_is_member_object_pointer_list = [False, False],
       m_is_member_function_pointer_list = [False, False],
       m_pointer_dim_list = [0, 0],
       m_global_properties = [],
       m_type_property_map = Map.empty,
       m_class_property_map = Map.empty,
       m_global_methods = [],
       m_type_method_map = Map.empty,
       m_class_method_map = Map.empty,
       m_type_ctor_map = Map.empty,
       m_type_dtor_map = Map.empty,
       m_enumeration_list = [],
       m_metadata_type_list = [],
       m_type_converter_list = [],
       m_type_comparator_list = [] \<rparr>"
  by (simp add: one_class_def eval_defs)

lemma diamond_rows:
  "take 3 (drop 6 (m_base_class_list diamond)) = [1, 0, 0]"
  "take 3 (drop 6 (m_conversion_list diamond)) = [22, 0, 0]"
  by (simp_all add: diamond_def one_class_eq eval_defs)

subsection \<open>Metadata\<close>

lemma get_metadata_list_sorted:
  "get_metadata_list (db\<lparr>m_metadata_type_list := sort_key m_id xs\<rparr>) t
   = map_option m_data (find (\<lambda>x. m_id x = t) xs)"
  by (simp add: get_metadata_list_def get_item_by_type_sorted)

lemma get_metadata_list_absent:
  "t \<notin> m_id ` set (m_metadata_type_list db) \<Longrightarrow> get_metadata_list db t = None"
  using get_item_by_type_in_set [of t "m_metadata_type_list db"]
  by (cases "get_metadata_list db t") (auto simp: get_metadata_list_def)

text \<open>Once a type has its vector, \<^verbatim>\<open>register_metadata\<close> changes nothing at all.\<close>

lemma register_metadata_existing:
  "get_metadata_list db t = Some meta_vec \<Longrightarrow> register_metadata db t data = db"
  by (simp add: register_metadata_def)

lemma register_metadata_new:
  assumes "is_valid t" and "t \<notin> m_id ` set (m_metadata_type_list db)" and "data \<noteq> []"
  shows "get_metadata_list (register_metadata db t data) t = Some data"
proof -
  from assms(2) have none: "find (\<lambda>x. m_id x = t) (m_metadata_type_list db) = None"
    by (auto simp: find_None_iff)
  from assms(2) have "get_metadata_list db t = None" by (rule get_metadata_list_absent)
  with assms(1,3) none show ?thesis
    by (simp add: register_metadata_def register_item_type_def get_metadata_list_sorted
        find_append)
qed

text \<open>
  On a type that has no metadata vector yet, the value registered first for a key stays and
  a later entry with the same key is dropped.
\<close>

lemma register_metadata_first_write_wins:
  assumes "is_valid t" and "t \<notin> m_id ` set (m_metadata_type_list db)"
  shows "get_metadata
           (register_metadata
              (register_metadata db t [\<lparr>m_key = K, m_value = Some v1\<rparr>])
              t [\<lparr>m_key = K, m_value = Some v2\<rparr>])
           t K = Some v1"
proof -
  let ?db1 = "register_metadata db t [\<lparr>m_key = K, m_value = Some v1\<rparr>]"
  have first: "get_metadata_list ?db1 t = Some [\<lparr>m_key = K, m_value = Some v1\<rparr>]"
    using assms by (simp add: register_metadata_new)
  then have "register_metadata ?db1 t [\<lparr>m_key = K, m_value = Some v2\<rparr>] = ?db1"
    by (rule register_metadata_existing)
  with first show ?thesis
    by (simp add: get_metadata_def get_metadata_in_def lower_bound_def)
qed

text \<open>
  Claim C4. The claim says that after \<^verbatim>\<open>register_metadata(t, [(K, 1)])\<close> and then
  \<^verbatim>\<open>register_metadata(t, [(K, 2)])\<close> the lookup of \<open>K\<close> returns 1, for every valid
  type. On a type that already has a metadata vector in which \<open>K\<close> does not occur, the
  first of the two calls adds its entry to a copy of the vector and stores nothing, and so
  does the second: the lookup of \<open>K\<close> gives the invalid variant, \<open>None\<close>, whatever the two
  values are. The value written first is lost, not kept.
\<close>

theorem register_metadata_first_write_lost:
  assumes "get_metadata_list db t = Some meta_vec" and "K \<notin> m_key ` set meta_vec"
  shows "get_metadata
           (register_metadata
              (register_metadata db t [\<lparr>m_key = K, m_value = Some v1\<rparr>])
              t [\<lparr>m_key = K, m_value = Some v2\<rparr>])
           t K = None"
proof -
  from assms(1) have "register_metadata db t [\<lparr>m_key = K, m_value = Some v1\<rparr>] = db"
    by (rule register_metadata_existing)
  moreover from assms(1) have "register_metadata db t [\<lparr>m_key = K, m_value = Some v2\<rparr>] = db"
    by (rule register_metadata_existing)
  moreover have "get_metadata_in K meta_vec = None"
  proof (cases "lower_bound m_key K meta_vec")
    case Nil
    then show ?thesis by (simp add: get_metadata_in_def)
  next
    case (Cons item rest)
    then have "item \<in> set meta_vec"
      using set_dropWhileD [of item "\<lambda>x. m_key x < K" meta_vec] by (simp add: lower_bound_def)
    with assms(2) have "m_key item \<noteq> K" by auto
    with Cons show ?thesis by (simp add: get_metadata_in_def)
  qed
  ultimately show ?thesis using assms(1) by (simp add: get_metadata_def)
qed

text \<open>
  The failing input: in the registry with the class \<open>A\<close> (id 1), the key 7 is registered
  with the value 70, and then the key 5 with the value 1 and again with the value 2. The
  type is valid and no vector is empty, so every call passes the test at the head of the
  function; the stored vector holds the key 7 only, and the lookup of the key 5 does not
  return 1.
\<close>

theorem register_metadata_first_write_lost_witness:
  "is_valid 1 \<and>
   get_metadata_list (register_metadata one_class 1 [\<lparr>m_key = 7, m_value = Some 70\<rparr>]) 1
     = Some [\<lparr>m_key = 7, m_value = Some 70\<rparr>] \<and>
   (5::nat) \<notin> m_key ` set [\<lparr>m_key = 7, m_value = Some (70::nat)\<rparr>] \<and>
   get_metadata
     (register_metadata
        (register_metadata
           (register_metadata one_class 1 [\<lparr>m_key = 7, m_value = Some 70\<rparr>])
           1 [\<lparr>m_key = 5, m_value = Some 1\<rparr>])
        1 [\<lparr>m_key = 5, m_value = Some 2\<rparr>])
     1 5 = None \<and>
   get_metadata
     (register_metadata
        (register_metadata
           (register_metadata one_class 1 [\<lparr>m_key = 7, m_value = Some 70\<rparr>])
           1 [\<lparr>m_key = 5, m_value = Some 1\<rparr>])
        1 [\<lparr>m_key = 5, m_value = Some 2\<rparr>])
     1 5 \<noteq> Some 1"
proof -
  let ?db = "register_metadata one_class 1 [\<lparr>m_key = 7, m_value = Some 70\<rparr>]"
  have valid: "is_valid 1" by (simp add: is_valid_def m_invalid_id_def)
  have vec: "get_metadata_list ?db 1 = Some [\<lparr>m_key = 7, m_value = Some 70\<rparr>]"
    using valid by (simp add: register_metadata_new one_class_lists)
  have absent: "(5::nat) \<notin> m_key ` set [\<lparr>m_key = 7, m_value = Some (70::nat)\<rparr>]"
    by simp
  from register_metadata_first_write_lost [OF vec absent, of 1 2] valid vec absent
  show ?thesis by simp
qed

text \<open>
  Claim C5. The claim says that a new key registered on a type that already has a metadata
  vector is stored there and found afterwards. The function adds the entry to a copy of the
  vector: in the registry with the class \<open>A\<close>, after the key \<open>1\<close> has been registered with
  the value \<open>10\<close>, registering the key \<open>2\<close> with the value \<open>20\<close> changes nothing, and the
  lookup of the key \<open>2\<close> gives the invalid variant.
\<close>

theorem register_metadata_second_key_lost:
  "get_metadata
     (register_metadata
        (register_metadata one_class 1 [\<lparr>m_key = 1, m_value = Some 10\<rparr>])
        1 [\<lparr>m_key = 2, m_value = Some 20\<rparr>])
     1 2 = None"
  by (simp add: register_metadata_def register_item_type_def get_metadata_def
      get_metadata_list_def get_item_by_type_def get_metadata_in_def lower_bound_def
      one_class_lists is_valid_def m_invalid_id_def)

text \<open>
  Both calls pass the test at the head of the function: the type is valid and the vectors
  are not empty. The first call stores its vector, the second finds it and stores nothing.
\<close>

theorem register_metadata_second_key_lost_witness:
  "is_valid 1 \<and>
   get_metadata_list (register_metadata one_class 1 [\<lparr>m_key = 1, m_value = Some 10\<rparr>]) 1
     = Some [\<lparr>m_key = 1, m_value = Some 10\<rparr>] \<and>
   register_metadata
     (register_metadata one_class 1 [\<lparr>m_key = 1, m_value = Some 10\<rparr>])
     1 [\<lparr>m_key = 2, m_value = Some 20\<rparr>]
     = register_metadata one_class 1 [\<lparr>m_key = 1, m_value = Some 10\<rparr>] \<and>
   get_metadata
     (register_metadata
        (register_metadata one_class 1 [\<lparr>m_key = 1, m_value = Some 10\<rparr>])
        1 [\<lparr>m_key = 2, m_value = Some 20\<rparr>])
     1 2 = None"
  using register_metadata_second_key_lost
  by (simp add: register_metadata_def register_item_type_def get_metadata_list_def
      get_item_by_type_def lower_bound_def one_class_lists is_valid_def m_invalid_id_def)

subsection \<open>Comparators\<close>

lemma get_comparator_sorted:
  "get_comparator (db\<lparr>m_type_comparator_list := sort_key m_id xs\<rparr>) t
   = map_option m_data (find (\<lambda>x. m_id x = t) xs)"
proof -
  have "get_comparator (db\<lparr>m_type_comparator_list := sort_key m_id xs\<rparr>) t
        = get_item_by_type t (sort_key m_id xs)"
    by (simp add: get_comparator_def get_item_by_type_def)
  then show ?thesis by (simp add: get_item_by_type_sorted)
qed

text \<open>
  Claim C7, as amended. For every valid type \<open>t\<close> that has no comparator yet, after
  \<^verbatim>\<open>register_comparator(t, c1)\<close> and then \<^verbatim>\<open>register_comparator(t, c2)\<close>,
  \<^verbatim>\<open>get_comparator(t)\<close> returns \<open>c1\<close>, the comparator registered first: the stable sort
  keeps the entries of one id in the order of their registration, and the lower bound is the
  first of them.
\<close>

theorem register_comparator_first_kept:
  assumes "is_valid t" and "t \<notin> m_id ` set (m_type_comparator_list db)"
  shows "get_comparator (register_comparator (register_comparator db t c1) t c2) t = Some c1"
proof -
  from assms(2) have none: "find (\<lambda>x. m_id x = t) (m_type_comparator_list db) = None"
    by (auto simp: find_None_iff)
  show ?thesis
    using assms(1) none
    by (simp add: register_comparator_def get_comparator_sorted find_append find_sort_key)
qed

theorem register_comparator_first_kept_witness:
  "is_valid 1 \<and> 1 \<notin> m_id ` set (m_type_comparator_list one_class) \<and>
   get_comparator (register_comparator (register_comparator one_class 1 100) 1 200) 1
     = Some 100"
  using register_comparator_first_kept [of 1 one_class 100 200]
  by (simp add: one_class_lists is_valid_def m_invalid_id_def)

text \<open>
  The claim as it was stated expects the comparator registered last, here \<open>200\<close>.
\<close>

theorem register_comparator_last_not_found:
  "get_comparator (register_comparator (register_comparator one_class 1 100) 1 200) 1
     = Some 100 \<and>
   get_comparator (register_comparator (register_comparator one_class 1 100) 1 200) 1
     \<noteq> Some 200"
  by (simp add: register_comparator_def get_comparator_def one_class_lists is_valid_def
      m_invalid_id_def lower_bound_def)

subsection \<open>The invalid type\<close>

text \<open>
  Every registration function but one returns at once when the type is invalid.
\<close>

lemma register_property_invalid: "register_property fuel cfg db m_invalid_id prop = Some db"
  by (simp add: register_property_def is_valid_def)

lemma register_method_invalid: "register_method fuel cfg db m_invalid_id meth = Some db"
  by (simp add: register_method_def is_valid_def)

lemma register_constructor_invalid: "register_constructor db m_invalid_id ctor = db"
  by (simp add: register_constructor_def is_valid_def)

lemma register_enumeration_invalid: "register_enumeration db m_invalid_id enum_item = db"
  by (simp add: register_enumeration_def register_item_type_def is_valid_def)

lemma register_metadata_invalid: "register_metadata db m_invalid_id data = db"
  by (simp add: register_metadata_def is_valid_def)

lemma register_converter_invalid: "register_converter db m_invalid_id converter = db"
  by (simp add: register_converter_def is_valid_def)

lemma register_comparator_invalid: "register_comparator db m_invalid_id comparator = db"
  by (simp add: register_comparator_def is_valid_def)

lemma register_custom_name_invalid:
  "register_custom_name cfg db m_invalid_id custom_name = Some db"
  by (simp add: register_custom_name_def is_valid_def)

text \<open>
  Claim C8. The claim says that every registration function leaves the registry unchanged
  when it is called with the invalid type, and that every query with the invalid type
  returns the invalid result. \<^verbatim>\<open>register_destructor\<close> has no test of the type: on the new
  registry, called with the invalid type and the destructor \<open>7\<close>, it stores the destructor
  under the id 0, the registry is no longer the one it was, and \<^verbatim>\<open>get_destructor\<close> of the
  invalid type returns the destructor.
\<close>

theorem register_destructor_invalid_type_stored:
  "get_destructor
     (register_destructor (new_type_database :: (nat, nat) type_database) m_invalid_id 7)
     m_invalid_id = Some 7 \<and>
   get_destructor (new_type_database :: (nat, nat) type_database) m_invalid_id = None"
  by (simp add: register_destructor_def get_destructor_def new_type_database_def)

subsection \<open>Base classes\<close>

lemma rde_mem:
  "e \<in> set (remove_double_entries xs seen kept) \<longleftrightarrow>
   e \<in> set kept \<or>
   (m_base_type e \<notin> seen \<and> find (\<lambda>x. m_base_type x = m_base_type e) xs = Some e)"
proof (induction xs arbitrary: seen kept)
  case Nil
  then show ?case by simp
next
  case (Cons x xs)
  show ?case
  proof (cases "m_base_type x \<in> seen")
    case True
    have "m_base_type e \<notin> seen \<Longrightarrow> m_base_type x \<noteq> m_base_type e"
      using True by metis
    then show ?thesis using True Cons.IH [of seen kept] by fastforce
  next
    case False
    note ih = Cons.IH [of "insert (m_base_type x) seen" "x # kept"]
    show ?thesis
    proof (cases "m_base_type x = m_base_type e")
      case True
      then show ?thesis using False ih by (cases "e = x") simp_all
    next
      case ne: False
      then have "e \<noteq> x" by metis
      then show ?thesis using False ne ih by simp
    qed
  qed
qed

lemma rde_distinct:
  "distinct (map m_base_type kept) \<Longrightarrow> m_base_type ` set kept \<subseteq> seen \<Longrightarrow>
   distinct (map m_base_type (remove_double_entries xs seen kept))"
proof (induction xs arbitrary: seen kept)
  case Nil
  then show ?case by simp
next
  case (Cons x xs)
  show ?case
  proof (cases "m_base_type x \<in> seen")
    case True
    then show ?thesis using Cons by simp
  next
    case False
    have "distinct (map m_base_type (x # kept))" using False Cons.prems by auto
    moreover have "m_base_type ` set (x # kept) \<subseteq> insert (m_base_type x) seen"
      using Cons.prems by auto
    ultimately show ?thesis using False Cons.IH by simp
  qed
qed

lemma find_rev_last:
  "find P (rev xs) = (if filter P xs = [] then None else Some (last (filter P xs)))"
  by (induction xs) (auto simp: find_append)

lemma take_Suc_update: "pos < length v \<Longrightarrow> take (Suc pos) (v[pos := x]) = take pos v @ [x]"
  by (simp add: take_Suc_conv_app_nth)

lemma store_base_classes_Some:
  "store_base_classes bs pos bl cl = Some (bl', cl') \<Longrightarrow>
   (bs \<noteq> [] \<longrightarrow> pos + length bs \<le> length bl \<and> pos + length bs \<le> length cl) \<and>
   bl' = take pos bl @ map m_base_type bs @ drop (pos + length bs) bl \<and>
   cl' = take pos cl @ map m_rttr_cast_func bs @ drop (pos + length bs) cl"
proof (induction bs arbitrary: pos bl cl)
  case Nil
  then show ?case by simp
next
  case (Cons b bs)
  from Cons.prems obtain bl1 cl1 where
    p1: "put bl pos (m_base_type b) = Some bl1" and p2: "put cl pos (m_rttr_cast_func b) = Some cl1"
    and rest: "store_base_classes bs (Suc pos) bl1 cl1 = Some (bl', cl')"
    by (auto simp: bind_eq_Some_conv)
  from p1 have b1: "pos < length bl" and b2: "bl1 = bl[pos := m_base_type b]"
    by (auto simp: put_def split: if_splits)
  from p2 have c1: "pos < length cl" and c2: "cl1 = cl[pos := m_rttr_cast_func b]"
    by (auto simp: put_def split: if_splits)
  note ih = Cons.IH [OF rest]
  have len: "pos + length (b # bs) \<le> length bl \<and> pos + length (b # bs) \<le> length cl"
  proof (cases "bs = []")
    case True
    with b1 c1 show ?thesis by simp
  next
    case False
    with ih have "Suc pos + length bs \<le> length bl1" "Suc pos + length bs \<le> length cl1" by auto
    then show ?thesis by (simp add: b2 c2)
  qed
  have "bl' = take (Suc pos) bl1 @ map m_base_type bs @ drop (Suc pos + length bs) bl1"
    using ih by blast
  also have "take (Suc pos) bl1 = take pos bl @ [m_base_type b]"
    unfolding b2 using b1 by (rule take_Suc_update)
  also have "drop (Suc pos + length bs) bl1 = drop (pos + length (b # bs)) bl"
    unfolding b2 by simp
  finally have B: "bl' = take pos bl @ map m_base_type (b # bs) @ drop (pos + length (b # bs)) bl"
    by simp
  have "cl' = take (Suc pos) cl1 @ map m_rttr_cast_func bs @ drop (Suc pos + length bs) cl1"
    using ih by blast
  also have "take (Suc pos) cl1 = take pos cl @ [m_rttr_cast_func b]"
    unfolding c2 using c1 by (rule take_Suc_update)
  also have "drop (Suc pos + length bs) cl1 = drop (pos + length (b # bs)) cl"
    unfolding c2 by simp
  finally have C: "cl' = take pos cl @ map m_rttr_cast_func (b # bs) @ drop (pos + length (b # bs)) cl"
    by simp
  from len B C show ?case by blast
qed


lemma length_resize: "length (resize v n x) = n"
  by (simp add: resize_def)

lemma resize_nth_fresh: "length v \<le> k \<Longrightarrow> k < n \<Longrightarrow> resize v n x ! k = x"
  by (simp add: resize_def nth_append)

lemma distinct_map_sort_key:
  "distinct (map f (sort_key f xs)) = distinct (map f xs)"
  by (simp add: distinct_map)

lemma bases_of_input:
  fixes base_classes :: "base_class_info list"
  defines "bases \<equiv> sort_key m_base_type (remove_double_entries (rev base_classes) {} [])"
  shows "distinct (map m_base_type bases)"
    and "e \<in> set base_classes \<Longrightarrow>
         last (filter (\<lambda>x. m_base_type x = m_base_type e) base_classes) \<in> set bases"
    and "x \<in> set bases \<Longrightarrow> x \<in> set base_classes"
proof -
  show "distinct (map m_base_type bases)"
    unfolding bases_def by (simp add: distinct_map_sort_key rde_distinct)
  show "last (filter (\<lambda>x. m_base_type x = m_base_type e) base_classes) \<in> set bases"
    if "e \<in> set base_classes"
  proof -
    let ?P = "\<lambda>x. m_base_type x = m_base_type e"
    let ?l = "last (filter ?P base_classes)"
    from that have ne: "filter ?P base_classes \<noteq> []" by (auto simp: filter_empty_conv)
    then have "?l \<in> set (filter ?P base_classes)" by (rule last_in_set)
    then have same: "m_base_type ?l = m_base_type e" by simp
    have "find ?P (rev base_classes) = Some ?l" using ne by (simp add: find_rev_last)
    with same have "find (\<lambda>x. m_base_type x = m_base_type ?l) (rev base_classes) = Some ?l"
      by simp
    then have "?l \<in> set (remove_double_entries (rev base_classes) {} [])"
      by (simp add: rde_mem)
    then show ?thesis by (simp add: bases_def)
  qed
  show "x \<in> set base_classes" if "x \<in> set bases"
  proof -
    from that have "find (\<lambda>y. m_base_type y = m_base_type x) (rev base_classes) = Some x"
      by (simp add: bases_def rde_mem)
    then have "x \<in> set (rev base_classes)" by (metis find_Some_iff nth_mem)
    then show ?thesis by simp
  qed
qed

text \<open>
  Claim C9, as amended. For every call of \<^verbatim>\<open>register_base_class_info\<close> that returns, on a
  row of the base-class list that was not allocated before, and for every valid base type
  of the input list, however often the list names it: the stored row of
  \<open>RTTR_MAX_INHERIT_TYPES_COUNT\<close> slots holds that base type in exactly one slot, and the
  cast function stored with it is the one of the last element of the input list with that
  base type. The earlier elements are the ones removed.
\<close>

theorem register_base_class_info_last_kept:
  assumes reg: "register_base_class_info cfg db src_type raw_type base_classes = Some db'"
    and fresh: "length (m_base_class_list db) \<le> RTTR_MAX_INHERIT_TYPES_COUNT cfg * raw_type"
    and e: "e \<in> set base_classes" and valid: "is_valid (m_base_type e)"
  shows "\<exists>i < RTTR_MAX_INHERIT_TYPES_COUNT cfg.
           (\<forall>j < RTTR_MAX_INHERIT_TYPES_COUNT cfg.
              (m_base_class_list db' ! (RTTR_MAX_INHERIT_TYPES_COUNT cfg * raw_type + j)
                 = m_base_type e) = (j = i)) \<and>
           m_conversion_list db' ! (RTTR_MAX_INHERIT_TYPES_COUNT cfg * raw_type + i)
             = m_rttr_cast_func
                 (last (filter (\<lambda>x. m_base_type x = m_base_type e) base_classes))"
proof -
  define width where "width = RTTR_MAX_INHERIT_TYPES_COUNT cfg"
  define row where "row = width * raw_type"
  define bases where
    "bases = sort_key m_base_type (remove_double_entries (rev base_classes) {} [])"
  define bl where
    "bl = resize (m_base_class_list db) (max (length (m_base_class_list db)) (row + width))
            m_invalid_id"
  define cl where
    "cl = resize (m_conversion_list db) (max (length (m_conversion_list db)) (row + width))
            (0::nat)"
  define n where "n = length bases"
  let ?l = "last (filter (\<lambda>x. m_base_type x = m_base_type e) base_classes)"
  from reg obtain bl' cl' where
    st: "store_base_classes bases row bl cl = Some (bl', cl')"
    and bl': "m_base_class_list db' = bl'" and cl': "m_conversion_list db' = cl'"
    unfolding register_base_class_info_def Let_def width_def [symmetric] row_def [symmetric]
      bases_def [symmetric] bl_def [symmetric] cl_def [symmetric]
    by (auto simp: bind_eq_Some_conv)
  have dist: "distinct (map m_base_type bases)"
    unfolding bases_def by (rule bases_of_input(1))
  have lin: "?l \<in> set bases"
    unfolding bases_def using e by (rule bases_of_input(2))
  from lin have nonempty: "bases \<noteq> []" by auto
  from fresh have len_bl: "length bl = row + width"
    by (simp add: bl_def length_resize row_def width_def)
  have len_cl: "row + width \<le> length cl" by (simp add: cl_def length_resize)
  note stored = store_base_classes_Some [OF st]
  from stored nonempty len_bl have n_le: "n \<le> width" by (simp add: n_def)
  have bl_eq: "bl' = take row bl @ map m_base_type bases @ drop (row + n) bl"
    using stored by (simp add: n_def)
  have cl_eq: "cl' = take row cl @ map m_rttr_cast_func bases @ drop (row + n) cl"
    using stored by (simp add: n_def)
  have base_at: "bl' ! (row + j) = (if j < n then m_base_type (bases ! j) else m_invalid_id)"
    if "j < width" for j
  proof (cases "j < n")
    case True
    then show ?thesis using len_bl by (simp add: bl_eq nth_append n_def)
  next
    case False
    have "length (m_base_class_list db) \<le> row + j" using fresh by (simp add: row_def width_def)
    then have "bl ! (row + j) = m_invalid_id"
      using that unfolding bl_def by (intro resize_nth_fresh) auto
    moreover have "bl' ! (row + j) = bl ! (row + j)"
      using False len_bl that n_le by (simp add: bl_eq nth_append n_def)
    ultimately show ?thesis using False by simp
  qed
  have conv_at: "cl' ! (row + j) = m_rttr_cast_func (bases ! j)" if "j < n" for j
    using that len_cl by (simp add: cl_eq nth_append n_def)
  from lin obtain i where i: "i < n" "bases ! i = ?l"
    by (auto simp: in_set_conv_nth n_def)
  have "?l \<in> set (filter (\<lambda>x. m_base_type x = m_base_type e) base_classes)"
    using e by (intro last_in_set) (auto simp: filter_empty_conv)
  then have same: "m_base_type ?l = m_base_type e" by simp
  have uniq: "(bl' ! (row + j) = m_base_type e) = (j = i)" if "j < width" for j
  proof (cases "j < n")
    case True
    have "(m_base_type (bases ! j) = m_base_type (bases ! i)) = (j = i)"
      using dist True i(1) nth_eq_iff_index_eq [of "map m_base_type bases" j i]
      by (simp add: n_def)
    then show ?thesis using True that i same by (simp add: base_at)
  next
    case False
    then show ?thesis using that i(1) valid
      by (auto simp: base_at is_valid_def)
  qed
  from i n_le have "i < width" by simp
  moreover have "cl' ! (row + i) = m_rttr_cast_func ?l" using i by (simp add: conv_at)
  ultimately show ?thesis
    using uniq unfolding bl' cl' row_def width_def by blast
qed

theorem register_base_class_info_last_kept_witness:
  "\<exists>db'. register_base_class_info example_config one_class 2 2
            [example_base 1 11, example_base 1 22] = Some db' \<and>
         length (m_base_class_list one_class) \<le> RTTR_MAX_INHERIT_TYPES_COUNT example_config * 2 \<and>
         example_base 1 11 \<in> set [example_base 1 11, example_base 1 22] \<and>
         is_valid (m_base_type (example_base 1 11)) \<and>
         (\<exists>i<3. (\<forall>j<3. (m_base_class_list db' ! (3 * 2 + j) = 1) = (j = i)) \<and>
                m_conversion_list db' ! (3 * 2 + i) = 22)"
proof -
  have "register_base_class_info example_config one_class 2 2
          [example_base 1 11, example_base 1 22] \<noteq> None"
    by (simp add: one_class_eq eval_defs)
  then obtain db' where reg: "register_base_class_info example_config one_class 2 2
          [example_base 1 11, example_base 1 22] = Some db'"
    by auto
  have fresh: "length (m_base_class_list one_class)
                 \<le> RTTR_MAX_INHERIT_TYPES_COUNT example_config * 2"
    by (simp add: one_class_eq example_config_def)
  have valid: "is_valid (m_base_type (example_base 1 11))"
    by (simp add: example_base_def is_valid_def m_invalid_id_def)
  from register_base_class_info_last_kept [OF reg fresh _ valid]
  have "\<exists>i<3. (\<forall>j<3. (m_base_class_list db' ! (3 * 2 + j) = 1) = (j = i)) \<and>
                m_conversion_list db' ! (3 * 2 + i) = 22"
    by (simp add: example_config_def example_base_def)
  with reg fresh valid show ?thesis by simp
qed

text \<open>
  The claim as it was stated keeps the first occurrence, which here has the cast function
  11. The row of \<open>D\<close>, from slot 6 on, holds the base class once, with the cast function 22
  of the second occurrence.
\<close>

theorem register_base_class_info_first_not_kept:
  "take 3 (drop 6 (m_base_class_list diamond)) = [1, 0, 0] \<and>
   take 3 (drop 6 (m_conversion_list diamond)) = [22, 0, 0] \<and>
   take 3 (drop 6 (m_conversion_list diamond)) \<noteq> [11, 0, 0]"
  by (simp add: diamond_rows)

subsection \<open>Global properties and methods\<close>

lemma flat_multimap_find_absent:
  "key \<notin> fst ` set m \<Longrightarrow> flat_multimap_find (m @ ys) key = flat_multimap_find ys key"
  by (auto simp: flat_multimap_find_def dropWhile_append)

lemma flat_multimap_find_empty:
  "(flat_multimap_find m key = []) = (key \<notin> fst ` set m)"
  by (auto simp: flat_multimap_find_def dropWhile_eq_Nil_conv)

lemma flat_multimap_insert_new:
  "key \<notin> fst ` set m \<Longrightarrow> flat_multimap_insert m key v = m @ [(key, v)]"
  by (simp add: flat_multimap_insert_def)

lemma flat_multimap_insert_last:
  "flat_multimap_insert (m @ [(key, v)]) key w = m @ [(key, v), (key, w)]"
  by (simp add: flat_multimap_insert_def)

lemma get_global_property_None:
  "(get_global_property db name = None) = (name \<notin> fst ` set (m_global_properties db))"
  using flat_multimap_find_empty [of "m_global_properties db" name]
  by (cases "flat_multimap_find (m_global_properties db) name")
     (simp_all add: get_global_property_def)

lemma register_property_global_twice:
  assumes "is_valid t" and "is_class db t = Some False"
    and "property_name p2 = property_name p1"
  shows "\<exists>db1. register_property fuel cfg db t p1 = Some db1 \<and>
               register_property fuel cfg db1 t p2 = Some db1"
proof (cases "get_global_property db (property_name p1) = None")
  case False
  with assms show ?thesis by (auto simp: register_property_def)
next
  case True
  define db1 where "db1 = db\<lparr>m_global_properties :=
      flat_multimap_insert (m_global_properties db) (property_name p1) p1\<rparr>"
  from True have absent: "property_name p1 \<notin> fst ` set (m_global_properties db)"
    by (simp add: get_global_property_None)
  have first: "register_property fuel cfg db t p1 = Some db1"
    using assms True by (simp add: register_property_def db1_def)
  have "property_name p1 \<in> fst ` set (m_global_properties db1)"
    using absent by (simp add: db1_def flat_multimap_insert_new)
  then have "get_global_property db1 (property_name p1) \<noteq> None"
    by (simp add: get_global_property_None)
  moreover have "is_class db1 t = Some False" using assms by (simp add: db1_def is_class_def)
  ultimately have "register_property fuel cfg db1 t p2 = Some db1"
    using assms by (simp add: register_property_def)
  with first show ?thesis by blast
qed

lemma get_global_method_by_types_None:
  "name \<notin> fst ` set (m_global_methods db) \<Longrightarrow> get_global_method_by_types db name type_list = None"
  using flat_multimap_find_empty [of "m_global_methods db" name]
  by (simp add: get_global_method_by_types_def)

lemma register_method_global_twice:
  assumes "is_valid t" and "is_class db t = Some False"
    and fresh: "n \<notin> fst ` set (m_global_methods db)"
    and names: "method_name m1 = n" "method_name m2 = n"
    and differ: "method_parameter_types m1 \<noteq> method_parameter_types m2"
  shows "\<exists>db1 db2. register_method fuel cfg db t m1 = Some db1 \<and>
           register_method fuel cfg db1 t m2 = Some db2 \<and>
           get_global_methods db2 = get_global_methods db @ [m1, m2] \<and>
           get_global_method_by_types db2 n (method_parameter_types m1) = Some m1 \<and>
           get_global_method_by_types db2 n (method_parameter_types m2) = Some m2"
proof -
  define db1 where "db1 = db\<lparr>m_global_methods := m_global_methods db @ [(n, m1)]\<rparr>"
  define db2 where "db2 = db\<lparr>m_global_methods := m_global_methods db @ [(n, m1), (n, m2)]\<rparr>"
  have first: "register_method fuel cfg db t m1 = Some db1"
    using assms get_global_method_by_types_None [OF fresh]
    by (simp add: register_method_def db1_def flat_multimap_insert_new)
  have found1: "flat_multimap_find (m_global_methods db1) n = [m1]"
    using fresh by (simp add: db1_def flat_multimap_find_absent) (simp add: flat_multimap_find_def)
  have "get_global_method_by_types db1 n (method_parameter_types m2) = None"
    using names differ by (simp add: get_global_method_by_types_def found1 compare_with_type_list_def)
  moreover have "is_class db1 t = Some False" using assms by (simp add: db1_def is_class_def)
  ultimately have second: "register_method fuel cfg db1 t m2 = Some db2"
    using assms by (simp add: register_method_def db1_def db2_def flat_multimap_insert_last)
  have found2: "flat_multimap_find (m_global_methods db2) n = [m1, m2]"
    using fresh by (simp add: db2_def flat_multimap_find_absent) (simp add: flat_multimap_find_def)
  have "get_global_method_by_types db2 n (method_parameter_types m1) = Some m1"
    using names by (simp add: get_global_method_by_types_def found2 compare_with_type_list_def)
  moreover have "get_global_method_by_types db2 n (method_parameter_types m2) = Some m2"
    using names differ by (simp add: get_global_method_by_types_def found2 compare_with_type_list_def)
  moreover have "get_global_methods db2 = get_global_methods db @ [m1, m2]"
    by (simp add: get_global_methods_def value_data_def db2_def)
  ultimately show ?thesis using first second by blast
qed

text \<open>
  Claim C6, as amended. For every valid type that is not a class: a second global method
  registered under a name, with a list of parameter types that differs from the first one's,
  is stored behind the first, and each of the two is found by the name and its own list of
  parameter types; a second global property registered under a name that the global
  registry already holds is not stored, the registry stays as it is.
\<close>

theorem register_global_same_name:
  assumes "is_valid t" and "is_class db t = Some False"
    and "n \<notin> fst ` set (m_global_methods db)"
    and "method_name m1 = n" and "method_name m2 = n"
    and "method_parameter_types m1 \<noteq> method_parameter_types m2"
    and "property_name p2 = property_name p1"
  shows "(\<exists>db1 db2. register_method fuel cfg db t m1 = Some db1 \<and>
            register_method fuel cfg db1 t m2 = Some db2 \<and>
            get_global_methods db2 = get_global_methods db @ [m1, m2] \<and>
            get_global_method_by_types db2 n (method_parameter_types m1) = Some m1 \<and>
            get_global_method_by_types db2 n (method_parameter_types m2) = Some m2) \<and>
         (\<exists>db1. register_property fuel cfg db t p1 = Some db1 \<and>
            register_property fuel cfg db1 t p2 = Some db1)"
  using register_method_global_twice [OF assms(1-6)]
    register_property_global_twice [OF assms(1,2,7)]
  by blast

lemma void_only_eq:
  "void_only =
     \<lparr> m_type_id_counter = 1,
       m_type_list = [0, 1],
       m_orig_names = [''!invalid_type!'', ''void''],
       m_custom_names = [''!invalid_type!'', ''void''],
       m_orig_name_to_id = [\<lparr>m_name_id = 1, m_hash_value = 4\<rparr>],
       m_custom_name_to_id = [\<lparr>m_name_id = 1, m_hash_value = 4\<rparr>],
       m_base_class_list = [0, 0, 0, 0, 0, 0],
       m_derived_class_list = [0, 0, 0, 0, 0, 0],
       m_conversion_list = [0, 0, 0, 0, 0, 0],
       m_get_derived_info_func_list = [0, 0],
       m_raw_type_list = [0, 1],
       m_wrapped_type_list = [0, 0],
       m_array_raw_type_list = [0, 1],
       m_variant_create_func_list = [0, 0],
       m_type_size = [0, 0],
       m_is_class_list = [False, False],
       m_is_enum_list = [False, False],
       m_is_array_list = [False, False],
       m_is_pointer_list = [False, False],
       m_is_arithmetic_list = [False, False],
       m_is_function_pointer_list = [False, False],
       m_is_member_object_pointer_list = [False, False],
       m_is_member_function_pointer_list = [False, False],
       m_pointer_dim_list = [0, 0],
       m_global_properties = [],
       m_type_property_map = Map.empty,
       m_class_property_map = Map.empty,
       m_global_methods = [],
       m_type_method_map = Map.empty,
       m_class_method_map = Map.empty,
       m_type_ctor_map = Map.empty,
       m_type_dtor_map = Map.empty,
       m_enumeration_list = [],
       m_metadata_type_list = [],
       m_type_converter_list = [],
       m_type_comparator_list = [] \<rparr>"
  by (simp add: void_only_def eval_defs)

theorem register_global_same_name_witness:
  "is_valid 1 \<and> is_class void_only 1 = Some False \<and>
   ''f'' \<notin> fst ` set (m_global_methods void_only) \<and>
   [] \<noteq> [1::nat] \<and>
   (\<exists>db1 db2.
      register_method 0 example_config void_only 1
        \<lparr>method_name = ''f'', method_parameter_types = [], method_wrapper = 1\<rparr> = Some db1 \<and>
      register_method 0 example_config db1 1
        \<lparr>method_name = ''f'', method_parameter_types = [1], method_wrapper = 2\<rparr> = Some db2 \<and>
      get_global_methods db2 =
        [\<lparr>method_name = ''f'', method_parameter_types = [], method_wrapper = 1\<rparr>,
         \<lparr>method_name = ''f'', method_parameter_types = [1], method_wrapper = 2\<rparr>] \<and>
      get_global_method_by_types db2 ''f'' [] =
        Some \<lparr>method_name = ''f'', method_parameter_types = [], method_wrapper = 1\<rparr> \<and>
      get_global_method_by_types db2 ''f'' [1] =
        Some \<lparr>method_name = ''f'', method_parameter_types = [1], method_wrapper = 2\<rparr>) \<and>
   (\<exists>db1.
      register_property 0 example_config void_only 1
        \<lparr>property_name = ''x'', property_wrapper = 1\<rparr> = Some db1 \<and>
      register_property 0 example_config db1 1
        \<lparr>property_name = ''x'', property_wrapper = 2\<rparr> = Some db1)"
  using register_global_same_name [of 1 void_only "''f''"
      "\<lparr>method_name = ''f'', method_parameter_types = [], method_wrapper = 1\<rparr>"
      "\<lparr>method_name = ''f'', method_parameter_types = [1], method_wrapper = 2\<rparr>"
      "\<lparr>property_name = ''x'', property_wrapper = 2\<rparr>"
      "\<lparr>property_name = ''x'', property_wrapper = 1\<rparr>" 0 example_config]
  by (simp add: void_only_eq is_valid_def m_invalid_id_def is_class_def at_def
      get_global_methods_def value_data_def)

text \<open>
  The claim as it was stated has the second global property of a name stored as well. After
  the two registrations of the name \<open>x\<close> the global registry holds the first property only.
\<close>

theorem register_global_property_second_dropped:
  "get_global_properties two_global_properties =
     [\<lparr>property_name = ''x'', property_wrapper = 1\<rparr>]"
  by (simp add: two_global_properties_def void_only_eq register_property_def is_valid_def
      m_invalid_id_def is_class_def at_def get_global_property_def flat_multimap_find_def
      flat_multimap_insert_def get_global_properties_def value_data_def)

subsection \<open>The index of the original names\<close>

lemma scan_orig_names_above:
  "sorted (map m_hash_value idx) \<Longrightarrow> \<forall>e\<in>set idx. hv \<le> m_hash_value e \<Longrightarrow>
   scan_orig_names idx names hv name =
   scan_orig_names (filter (\<lambda>e. m_hash_value e = hv) idx) names hv name"
proof (induction idx)
  case Nil
  then show ?case by simp
next
  case (Cons x xs)
  show ?case
  proof (cases "m_hash_value x = hv")
    case True
    from Cons.prems have "sorted (map m_hash_value xs)" "\<forall>e\<in>set xs. hv \<le> m_hash_value e"
      by simp_all
    then have ih: "scan_orig_names xs names hv name =
        scan_orig_names (filter (\<lambda>e. m_hash_value e = hv) xs) names hv name"
      by (rule Cons.IH)
    show ?thesis using True by (simp add: ih cong: if_cong)
  next
    case False
    with Cons.prems have "hv < m_hash_value x" by auto
    moreover from Cons.prems have "\<forall>y\<in>set xs. m_hash_value x \<le> m_hash_value y" by simp
    ultimately have "\<forall>y\<in>set xs. m_hash_value y \<noteq> hv" by auto
    then have "filter (\<lambda>e. m_hash_value e = hv) xs = []" by (simp add: filter_empty_conv)
    with False show ?thesis by simp
  qed
qed

lemma filter_dropWhile_less:
  "filter (\<lambda>e. f e = k) (dropWhile (\<lambda>e. f e < (k::nat)) xs) = filter (\<lambda>e. f e = k) xs"
  by (induction xs) auto

lemma sorted_map_dropWhile:
  "sorted (map f xs) \<Longrightarrow> sorted (map f (dropWhile P xs))"
  by (induction xs) auto

lemma dropWhile_less_above:
  "sorted (map f xs) \<Longrightarrow> \<forall>e\<in>set (dropWhile (\<lambda>e. f e < k) xs). (k::nat) \<le> f e"
  by (induction xs) auto

lemma scan_orig_names_sorted:
  assumes "sorted (map m_hash_value idx)"
  shows "scan_orig_names (lower_bound m_hash_value hv idx) names hv name =
         scan_orig_names (filter (\<lambda>e. m_hash_value e = hv) idx) names hv name"
proof -
  let ?d = "dropWhile (\<lambda>e. m_hash_value e < hv) idx"
  have "sorted (map m_hash_value ?d)"
    using assms by (rule sorted_map_dropWhile)
  moreover have "\<forall>e\<in>set ?d. hv \<le> m_hash_value e"
    using assms by (rule dropWhile_less_above)
  ultimately have "scan_orig_names ?d names hv name =
      scan_orig_names (filter (\<lambda>e. m_hash_value e = hv) ?d) names hv name"
    by (rule scan_orig_names_above)
  then show ?thesis by (simp add: lower_bound_def filter_dropWhile_less)
qed

lemma scan_orig_names_same_hash:
  "\<forall>e\<in>set ys. m_hash_value e = hv \<and> m_name_id e < length names \<Longrightarrow>
   scan_orig_names ys names hv name =
   Some (map_option m_name_id (find (\<lambda>e. names ! m_name_id e = name) ys))"
  by (induction ys) (auto simp: at_def)

lemma registry_ok_length: "registry_ok cfg db \<Longrightarrow> length (m_orig_names db) = m_type_id_counter db + 1"
  by (simp add: registry_ok_def attribute_table_lengths_def)

lemma registry_ok_scan:
  assumes ok: "registry_ok cfg db"
  shows "scan_orig_names (lower_bound m_hash_value (generate_hash cfg name) (m_orig_name_to_id db))
           (m_orig_names db) (generate_hash cfg name) name =
         Some (map_option m_name_id
                 (find (\<lambda>e. m_orig_names db ! m_name_id e = name)
                    (filter (\<lambda>e. m_hash_value e = generate_hash cfg name) (m_orig_name_to_id db))))"
proof -
  from ok have srt: "sorted (map m_hash_value (m_orig_name_to_id db))"
    by (simp add: registry_ok_def)
  have "\<forall>e\<in>set (m_orig_name_to_id db). m_name_id e < length (m_orig_names db)"
    using ok registry_ok_length [OF ok] by (auto simp: registry_ok_def)
  then have "\<forall>e\<in>set (filter (\<lambda>e. m_hash_value e = generate_hash cfg name) (m_orig_name_to_id db)).
      m_hash_value e = generate_hash cfg name \<and> m_name_id e < length (m_orig_names db)"
    by simp
  then show ?thesis
    unfolding scan_orig_names_sorted [OF srt] by (rule scan_orig_names_same_hash)
qed

lemma tl_nth_set: "set (tl xs) = {xs ! i | i. 1 \<le> i \<and> i < length xs}"
proof (cases xs)
  case Nil
  then show ?thesis by simp
next
  case (Cons x ys)
  have "set ys = {ys ! j | j. j < length ys}" by (auto simp: in_set_conv_nth)
  also have "\<dots> = {(x # ys) ! i | i. 1 \<le> i \<and> i < length (x # ys)}"
  proof (intro equalityI subsetI)
    fix a assume "a \<in> {ys ! j | j. j < length ys}"
    then obtain j where "j < length ys" "a = ys ! j" by auto
    then have "a = (x # ys) ! Suc j \<and> 1 \<le> Suc j \<and> Suc j < length (x # ys)" by simp
    then show "a \<in> {(x # ys) ! i | i. 1 \<le> i \<and> i < length (x # ys)}" by blast
  next
    fix a assume "a \<in> {(x # ys) ! i | i. 1 \<le> i \<and> i < length (x # ys)}"
    then obtain i where i: "1 \<le> i" "i < length (x # ys)" "a = (x # ys) ! i" by auto
    then obtain j where "i = Suc j" by (cases i) auto
    with i have "j < length ys" "a = ys ! j" by auto
    then show "a \<in> {ys ! j | j. j < length ys}" by blast
  qed
  finally show ?thesis using Cons by simp
qed

lemma nth_in_tl: "1 \<le> i \<Longrightarrow> i < length xs \<Longrightarrow> xs ! i \<in> set (tl xs)"
  unfolding tl_nth_set by blast

lemma registry_ok_not_found:
  assumes ok: "registry_ok cfg db" and new: "name \<notin> registered_names db"
  shows "scan_orig_names (lower_bound m_hash_value (generate_hash cfg name) (m_orig_name_to_id db))
           (m_orig_names db) (generate_hash cfg name) name = Some None"
proof -
  let ?ys = "filter (\<lambda>e. m_hash_value e = generate_hash cfg name) (m_orig_name_to_id db)"
  have "\<not> (\<exists>e\<in>set ?ys. m_orig_names db ! m_name_id e = name)"
  proof
    assume "\<exists>e\<in>set ?ys. m_orig_names db ! m_name_id e = name"
    then obtain e where e: "e \<in> set (m_orig_name_to_id db)" "m_orig_names db ! m_name_id e = name"
      by auto
    from e(1) ok have "1 \<le> m_name_id e \<and> m_name_id e < length (m_orig_names db)"
      using registry_ok_length [OF ok] by (auto simp: registry_ok_def)
    with e(2) have "name \<in> set (tl (m_orig_names db))" unfolding tl_nth_set by blast
    with new show False by (simp add: registered_names_def)
  qed
  then have "find (\<lambda>e. m_orig_names db ! m_name_id e = name) ?ys = None"
    by (simp add: find_None_iff)
  then show ?thesis by (simp add: registry_ok_scan [OF ok])
qed

lemma registry_ok_found:
  assumes ok: "registry_ok cfg db" and old: "name \<in> registered_names db"
  shows "\<exists>i. 1 \<le> i \<and> i \<le> m_type_id_counter db \<and> m_orig_names db ! i = name \<and>
           scan_orig_names (lower_bound m_hash_value (generate_hash cfg name) (m_orig_name_to_id db))
             (m_orig_names db) (generate_hash cfg name) name = Some (Some i)"
proof -
  let ?ys = "filter (\<lambda>e. m_hash_value e = generate_hash cfg name) (m_orig_name_to_id db)"
  let ?P = "\<lambda>e. m_orig_names db ! m_name_id e = name"
  note len = registry_ok_length [OF ok]
  from old obtain i where i: "1 \<le> i" "i < length (m_orig_names db)" "m_orig_names db ! i = name"
    unfolding registered_names_def tl_nth_set by blast
  let ?e = "\<lparr>m_name_id = i, m_hash_value = generate_hash cfg (m_orig_names db ! i)\<rparr>"
  have "?e \<in> set (m_orig_name_to_id db)" using ok i len by (auto simp: registry_ok_def)
  with i(3) have "?e \<in> set ?ys" "?P ?e" by simp_all
  then have "\<exists>x\<in>set ?ys. ?P x" by blast
  then have "find ?P ?ys \<noteq> None" by (simp add: find_None_iff)
  then obtain e where f: "find ?P ?ys = Some e" by auto
  then have "e \<in> set (m_orig_name_to_id db)" "?P e"
    by (auto simp: find_Some_iff) (metis filter_is_subset nth_mem subsetD)
  then have j: "1 \<le> m_name_id e" "m_name_id e < length (m_orig_names db)"
      "m_orig_names db ! m_name_id e = m_orig_names db ! i"
    using ok len i(3) by (auto simp: registry_ok_def)
  from ok have "distinct (tl (m_orig_names db))" by (simp add: registry_ok_def)
  moreover have "tl (m_orig_names db) ! (m_name_id e - 1) = tl (m_orig_names db) ! (i - 1)"
    using j i by (simp add: nth_tl)
  moreover have "m_name_id e - 1 < length (tl (m_orig_names db))" "i - 1 < length (tl (m_orig_names db))"
    using j i by simp_all
  ultimately have "m_name_id e - 1 = i - 1" by (simp add: nth_eq_iff_index_eq)
  with j(1) i(1) have "m_name_id e = i" by simp
  with f have "scan_orig_names (lower_bound m_hash_value (generate_hash cfg name) (m_orig_name_to_id db))
             (m_orig_names db) (generate_hash cfg name) name = Some (Some i)"
    by (simp add: registry_ok_scan [OF ok])
  with i len show ?thesis by auto
qed


lemma register_base_class_info_fields:
  assumes "register_base_class_info cfg db src_type raw_type base_classes = Some db'"
  shows "\<exists>bl cl dl. db' = db\<lparr>m_base_class_list := bl, m_conversion_list := cl,
                               m_derived_class_list := dl\<rparr>"
  using assms unfolding register_base_class_info_def Let_def
  by (auto simp: bind_eq_Some_conv)

lemma register_type_found:
  assumes ok: "registry_ok cfg db" and old: "arg_name a \<in> registered_names db"
  shows "\<exists>i. 1 \<le> i \<and> i \<le> m_type_id_counter db \<and> m_orig_names db ! i = arg_name a \<and>
           register_type cfg db a = Some (i, db)"
proof -
  from registry_ok_found [OF ok old] obtain i where
    i: "1 \<le> i" "i \<le> m_type_id_counter db" "m_orig_names db ! i = arg_name a"
    and scan: "scan_orig_names
        (lower_bound m_hash_value (generate_hash cfg (arg_name a)) (m_orig_name_to_id db))
        (m_orig_names db) (generate_hash cfg (arg_name a)) (arg_name a) = Some (Some i)"
    by blast
  have "register_type cfg db a = Some (i, db)"
    by (simp add: register_type_def register_name_def scan)
  with i show ?thesis by blast
qed

lemma register_type_new_fields:
  assumes scan: "scan_orig_names
        (lower_bound m_hash_value (generate_hash cfg (arg_name a)) (m_orig_name_to_id db))
        (m_orig_names db) (generate_hash cfg (arg_name a)) (arg_name a) = Some None"
    and cap: "m_type_id_counter db < 65535"
    and reg: "register_type cfg db a = Some (i, db')"
  shows "i = m_type_id_counter db + 1"
    and "m_type_id_counter db' = m_type_id_counter db + 1"
    and "m_orig_names db' = m_orig_names db @ [arg_name a]"
    and "m_orig_name_to_id db' = sort_key m_hash_value (m_orig_name_to_id db @
           [\<lparr>m_name_id = m_type_id_counter db + 1,
             m_hash_value = generate_hash cfg (arg_name a)\<rparr>])"
    and "attribute_table_lengths db' = map Suc (attribute_table_lengths db)"
proof -
  from cap have wrap: "Suc (m_type_id_counter db) mod 65536 = Suc (m_type_id_counter db)"
    by simp
  from reg obtain custom db2 where
    db': "register_base_class_info cfg db2 i
            (if arg_raw_type a = 0 then i else arg_raw_type a) (arg_base_classes a) = Some db'"
    and i: "i = Suc (m_type_id_counter db)"
    and c2: "m_type_id_counter db2 = Suc (m_type_id_counter db)"
    and n2: "m_orig_names db2 = m_orig_names db @ [arg_name a]"
    and x2: "m_orig_name_to_id db2 = sort_key m_hash_value (m_orig_name_to_id db @
           [\<lparr>m_name_id = Suc (m_type_id_counter db),
             m_hash_value = generate_hash cfg (arg_name a)\<rparr>])"
    and l2: "attribute_table_lengths db2 = map Suc (attribute_table_lengths db)"
    unfolding register_type_def register_name_def Let_def scan
    by (auto simp: bind_eq_Some_conv wrap attribute_table_lengths_def)
  from register_base_class_info_fields [OF db'] obtain bl cl dl where
    eq: "db' = db2\<lparr>m_base_class_list := bl, m_conversion_list := cl,
                   m_derived_class_list := dl\<rparr>"
    by blast
  show "i = m_type_id_counter db + 1" using i by simp
  show "m_type_id_counter db' = m_type_id_counter db + 1" using c2 by (simp add: eq)
  show "m_orig_names db' = m_orig_names db @ [arg_name a]" using n2 by (simp add: eq)
  show "m_orig_name_to_id db' = sort_key m_hash_value (m_orig_name_to_id db @
           [\<lparr>m_name_id = m_type_id_counter db + 1,
             m_hash_value = generate_hash cfg (arg_name a)\<rparr>])"
    using x2 by (simp add: eq)
  show "attribute_table_lengths db' = map Suc (attribute_table_lengths db)"
    using l2 by (simp add: eq attribute_table_lengths_def)
qed


lemma registry_ok_counter:
  assumes "registry_ok cfg db"
  shows "card (registered_names db) = m_type_id_counter db"
proof -
  from assms have "distinct (tl (m_orig_names db))" by (simp add: registry_ok_def)
  then have "card (set (tl (m_orig_names db))) = length (tl (m_orig_names db))"
    by (rule distinct_card)
  then show ?thesis using registry_ok_length [OF assms] by (simp add: registered_names_def)
qed

lemma register_type_new_ok:
  assumes ok: "registry_ok cfg db" and new: "arg_name a \<notin> registered_names db"
    and cap: "m_type_id_counter db < 65535"
    and reg: "register_type cfg db a = Some (i, db')"
  shows "registry_ok cfg db'"
    and "registered_names db' = insert (arg_name a) (registered_names db)"
    and "i = m_type_id_counter db + 1"
    and "m_orig_names db' = m_orig_names db @ [arg_name a]"
proof -
  let ?c = "m_type_id_counter db"
  let ?names = "m_orig_names db"
  let ?e = "\<lambda>names i. \<lparr>m_name_id = i, m_hash_value = generate_hash cfg (names ! i)\<rparr>"
  note len = registry_ok_length [OF ok]
  note f = register_type_new_fields [OF registry_ok_not_found [OF ok new] cap reg]
  show "i = ?c + 1" by (rule f(1))
  show names': "m_orig_names db' = ?names @ [arg_name a]" by (rule f(3))
  from len have ne: "?names \<noteq> []" by auto
  then have tl': "tl (m_orig_names db') = tl ?names @ [arg_name a]" by (simp add: names')
  then show "registered_names db' = insert (arg_name a) (registered_names db)"
    by (simp add: registered_names_def)
  have srt: "sorted (map m_hash_value (m_orig_name_to_id db'))" by (simp add: f(4))
  have old: "?e (m_orig_names db') j = ?e ?names j" if "j \<in> {1..?c}" for j
    using that len by (simp add: names' nth_append)
  have last: "?e (m_orig_names db') (?c + 1) =
      \<lparr>m_name_id = ?c + 1, m_hash_value = generate_hash cfg (arg_name a)\<rparr>"
    using len by (simp add: names' nth_append)
  have "set (m_orig_name_to_id db') =
      insert \<lparr>m_name_id = ?c + 1, m_hash_value = generate_hash cfg (arg_name a)\<rparr>
        (set (m_orig_name_to_id db))"
    by (simp add: f(4))
  also have "set (m_orig_name_to_id db) = ?e ?names ` {1..?c}"
    using ok by (simp add: registry_ok_def)
  also have "?e ?names ` {1..?c} = ?e (m_orig_names db') ` {1..?c}"
    using old by (intro image_cong) simp_all
  also have "insert \<lparr>m_name_id = ?c + 1, m_hash_value = generate_hash cfg (arg_name a)\<rparr>
      (?e (m_orig_names db') ` {1..?c}) = ?e (m_orig_names db') ` {1..?c + 1}"
    unfolding last [symmetric] by (simp add: atLeastAtMostSuc_conv)
  finally have idx: "set (m_orig_name_to_id db') =
      ?e (m_orig_names db') ` {1..m_type_id_counter db'}"
    by (simp add: f(2))
  have dist: "distinct (tl (m_orig_names db'))"
    using ok new by (simp add: tl' registry_ok_def registered_names_def)
  have "list_all (\<lambda>n. n = ?c + 1) (attribute_table_lengths db)"
    using ok by (simp add: registry_ok_def)
  then have lens: "list_all (\<lambda>n. n = m_type_id_counter db' + 1) (attribute_table_lengths db')"
    by (simp add: f(2,5) list_all_iff)
  from srt idx dist lens show "registry_ok cfg db'" by (simp add: registry_ok_def)
qed

text \<open>
  Claim C1. In a well-formed registry whose counter is below the last 16-bit id, when
  \<^verbatim>\<open>register_type\<close> has returned the id \<open>id1\<close> and the registry \<open>db1\<close> for a name, every
  further call with that name, whatever its other arguments, returns \<open>id1\<close> again and the
  registry \<open>db1\<close> itself: no vector, index or row has changed.
\<close>

theorem register_type_twice:
  assumes ok: "registry_ok cfg db" and cap: "m_type_id_counter db < 65535"
    and first: "register_type cfg db a = Some (id1, db1)"
    and same: "arg_name a' = arg_name a"
  shows "register_type cfg db1 a' = Some (id1, db1)"
proof (cases "arg_name a \<in> registered_names db")
  case True
  from register_type_found [OF ok True] first have "db1 = db" by auto
  moreover from register_type_found [OF ok True] first
  have id1: "1 \<le> id1" "id1 \<le> m_type_id_counter db" "m_orig_names db ! id1 = arg_name a"
    by auto
  moreover from True same have "arg_name a' \<in> registered_names db" by simp
  from register_type_found [OF ok this] obtain i where
    i: "1 \<le> i" "i \<le> m_type_id_counter db" "m_orig_names db ! i = arg_name a'"
       "register_type cfg db a' = Some (i, db)"
    by blast
  moreover have "i = id1"
  proof -
    from ok have "distinct (tl (m_orig_names db))" by (simp add: registry_ok_def)
    moreover have "tl (m_orig_names db) ! (i - 1) = tl (m_orig_names db) ! (id1 - 1)"
      using i id1 same registry_ok_length [OF ok] by (simp add: nth_tl)
    moreover have "i - 1 < length (tl (m_orig_names db))" "id1 - 1 < length (tl (m_orig_names db))"
      using i id1 registry_ok_length [OF ok] by simp_all
    ultimately have "i - 1 = id1 - 1" by (simp add: nth_eq_iff_index_eq)
    with i(1) id1(1) show ?thesis by simp
  qed
  ultimately show ?thesis by simp
next
  case False
  note n = register_type_new_ok [OF ok False cap first]
  from n(2) same have old: "arg_name a' \<in> registered_names db1" by simp
  from register_type_found [OF n(1) old] obtain i where
    i: "1 \<le> i" "i \<le> m_type_id_counter db1" "m_orig_names db1 ! i = arg_name a'"
       "register_type cfg db1 a' = Some (i, db1)"
    by blast
  note len = registry_ok_length [OF ok]
  have "i = id1"
  proof (rule ccontr)
    assume "i \<noteq> id1"
    moreover have "m_type_id_counter db1 = m_type_id_counter db + 1"
      using registry_ok_length [OF n(1)] len by (simp add: n(4))
    ultimately have "i \<le> m_type_id_counter db" using i(2) n(3) by simp
    then have "m_orig_names db ! i = arg_name a" "i < length (m_orig_names db)"
      using i(3) same len by (simp_all add: n(4) nth_append)
    with i(1) have "arg_name a \<in> set (tl (m_orig_names db))"
      using nth_in_tl [of i "m_orig_names db"] by simp
    with False show False by (simp add: registered_names_def)
  qed
  with i(4) show ?thesis by simp
qed

theorem register_type_twice_witness:
  "registry_ok example_config one_class \<and> m_type_id_counter one_class < 65535 \<and>
   (\<exists>id1 db1.
      register_type example_config one_class (example_class ''D'' [example_base 1 11])
        = Some (id1, db1) \<and>
      register_type example_config db1 (example_class ''D'' []) = Some (id1, db1))"
proof -
  have ok: "registry_ok example_config one_class"
    by (simp add: registry_ok_def attribute_table_lengths_def one_class_eq example_config_def)
  have cap: "m_type_id_counter one_class < 65535" by (simp add: one_class_eq)
  have "register_type example_config one_class (example_class ''D'' [example_base 1 11])
          \<noteq> None"
    by (simp add: one_class_eq eval_defs)
  then obtain id1 db1 where first:
    "register_type example_config one_class (example_class ''D'' [example_base 1 11])
       = Some (id1, db1)"
    by auto
  have "arg_name (example_class ''D'' []) = arg_name (example_class ''D'' [example_base 1 11])"
    by (simp add: example_class_def)
  from register_type_twice [OF ok cap first this] first ok cap show ?thesis by blast
qed

lemma new_type_database_ok: "registry_ok cfg new_type_database"
  by (simp add: registry_ok_def new_type_database_def attribute_table_lengths_def)

lemma new_type_database_names: "registered_names new_type_database = {}"
  by (simp add: registered_names_def new_type_database_def)

lemma finite_registered_names: "finite (registered_names db)"
  by (simp add: registered_names_def)

lemma register_types_ok:
  "registry_ok cfg db \<Longrightarrow> register_types cfg db calls = Some db' \<Longrightarrow>
   card (registered_names db \<union> arg_name ` set calls) < 65536 \<Longrightarrow>
   registry_ok cfg db' \<and> registered_names db' = registered_names db \<union> arg_name ` set calls"
proof (induction calls arbitrary: db)
  case Nil
  then show ?case by simp
next
  case (Cons a calls)
  from Cons.prems(2) obtain i db1 where
    step: "register_type cfg db a = Some (i, db1)"
    and rest: "register_types cfg db1 calls = Some db'"
    by (auto simp: bind_eq_Some_conv)
  have ok1: "registry_ok cfg db1 \<and> registered_names db1 = insert (arg_name a) (registered_names db)"
  proof (cases "arg_name a \<in> registered_names db")
    case True
    from register_type_found [OF Cons.prems(1) True] step have "db1 = db" by auto
    with Cons.prems(1) True show ?thesis by auto
  next
    case False
    have "insert (arg_name a) (registered_names db)
            \<subseteq> registered_names db \<union> arg_name ` set (a # calls)"
      by auto
    then have "card (insert (arg_name a) (registered_names db))
            \<le> card (registered_names db \<union> arg_name ` set (a # calls))"
      by (intro card_mono) (simp_all add: finite_registered_names)
    with False have "card (registered_names db) + 1 < 65536"
      using Cons.prems(3) by (simp add: finite_registered_names)
    then have cap: "m_type_id_counter db < 65535"
      by (simp add: registry_ok_counter [OF Cons.prems(1)])
    from register_type_new_ok(1,2) [OF Cons.prems(1) False cap step] show ?thesis by simp
  qed
  moreover have "registered_names db1 \<union> arg_name ` set calls
      = registered_names db \<union> arg_name ` set (a # calls)"
    using ok1 by auto
  ultimately show ?case using Cons.IH [OF _ rest] Cons.prems(3) by simp
qed

text \<open>
  Claim C10. After any run of \<^verbatim>\<open>register_type\<close> calls on the new registry that names
  fewer than \<open>2 ^ 16\<close> different types, each of the sixteen vectors indexed by the type id
  has as many elements as the calls have different names, plus one for the invalid type.
\<close>

theorem register_types_lock_step:
  assumes run: "register_types cfg new_type_database calls = Some db"
    and cap: "card (arg_name ` set calls) < 65536"
  shows "list_all (\<lambda>n. n = card (arg_name ` set calls) + 1) (attribute_table_lengths db)"
proof -
  from register_types_ok [OF new_type_database_ok run] cap
  have ok: "registry_ok cfg db" and names: "registered_names db = arg_name ` set calls"
    by (simp_all add: new_type_database_names)
  from ok have "list_all (\<lambda>n. n = m_type_id_counter db + 1) (attribute_table_lengths db)"
    by (simp add: registry_ok_def)
  then show ?thesis using registry_ok_counter [OF ok] by (simp add: names)
qed

theorem register_types_lock_step_witness:
  "\<exists>db. register_types example_config (new_type_database :: (nat, nat) type_database)
           [example_class ''A'' [], example_class ''B'' [example_base 1 11],
            example_class ''A'' [example_base 2 22]] = Some db \<and>
        card (arg_name ` set [example_class ''A'' [], example_class ''B'' [example_base 1 11],
            example_class ''A'' [example_base 2 22]]) < 65536 \<and>
        list_all (\<lambda>n. n = 3) (attribute_table_lengths db)"
proof -
  let ?calls = "[example_class ''A'' [], example_class ''B'' [example_base 1 11],
            example_class ''A'' [example_base 2 22]]"
  have "register_types example_config (new_type_database :: (nat, nat) type_database) ?calls
          \<noteq> None"
    by (simp add: eval_defs)
  then obtain db where run:
    "register_types example_config (new_type_database :: (nat, nat) type_database) ?calls
       = Some db"
    by auto
  have names: "arg_name ` set ?calls = {''A'', ''B''}"
    by (auto simp: example_class_def)
  have card: "card (arg_name ` set ?calls) = 2" unfolding names by simp
  from register_types_lock_step [OF run] card
  have "list_all (\<lambda>n. n = 3) (attribute_table_lengths db)" by simp
  with run card show ?thesis by auto
qed

subsection \<open>Class-level property lists\<close>

lemma inheritance_okD:
  assumes "inheritance_ok cfg db n" and "t < n"
  obtains raw_id bs ds where
    "get_raw_type db t = Some raw_id" "raw_id < n"
    "get_base_classes cfg db t = Some bs"
    "get_derived_classes cfg db t = Some ds"
    "\<And>d. d \<in> set ds \<Longrightarrow> d < n \<and> (\<exists>r. get_raw_type db d = Some r \<and> raw_id < r)"
proof -
  from assms have
    "case get_raw_type db t of
          None \<Rightarrow> False
        | Some raw_id \<Rightarrow>
            raw_id < n \<and> get_base_classes cfg db t \<noteq> None \<and>
            (case get_derived_classes cfg db t of
               None \<Rightarrow> False
             | Some derived_classes \<Rightarrow>
                 \<forall>d\<in>set derived_classes. d < n \<and>
                   (case get_raw_type db d of
                      None \<Rightarrow> False
                    | Some raw_id' \<Rightarrow> raw_id < raw_id'))"
    unfolding inheritance_ok_def by blast
  then show thesis
    by (auto split: option.splits intro!: that)
qed

lemma update_derived_types_defined:
  "(\<And>d cm. d \<in> set ds \<Longrightarrow> update_class_list fuel cfg db d tm cm \<noteq> None) \<Longrightarrow>
   update_derived_types fuel cfg db ds tm cm \<noteq> None"
proof (induction ds arbitrary: cm)
  case Nil
  then show ?case by simp
next
  case (Cons d ds)
  from Cons.prems [of d cm] obtain cm1 where
    d: "update_class_list fuel cfg db d tm cm = Some cm1" by auto
  have "update_derived_types fuel cfg db ds tm cm1 \<noteq> None"
    by (rule Cons.IH) (simp add: Cons.prems)
  with d show ?case by simp
qed

lemma update_class_list_defined:
  assumes ok: "inheritance_ok cfg db n"
  shows "t < n \<Longrightarrow> get_raw_type db t = Some raw_id \<Longrightarrow> n - raw_id \<le> fuel \<Longrightarrow>
         update_class_list fuel cfg db t tm cm \<noteq> None"
proof (induction fuel arbitrary: t raw_id cm)
  case 0
  from inheritance_okD [OF ok 0(1)] 0(2,3) show ?case by auto
next
  case (Suc fuel)
  from inheritance_okD [OF ok Suc.prems(1)] obtain r bs ds where
    t: "get_raw_type db t = Some r" "r < n" "get_base_classes cfg db t = Some bs"
       "get_derived_classes cfg db t = Some ds"
       "\<And>d. d \<in> set ds \<Longrightarrow> d < n \<and> (\<exists>r'. get_raw_type db d = Some r' \<and> r < r')"
    by blast
  from t(1) Suc.prems(2) have r: "r = raw_id" by simp
  have "update_class_list fuel cfg db d tm cm' \<noteq> None" if "d \<in> set ds" for d cm'
  proof -
    from t(5) [OF that] obtain r' where d: "d < n" "get_raw_type db d = Some r'" "r < r'"
      by blast
    from inheritance_okD [OF ok d(1)] d(2) have "r' < n" by auto
    with d(3) r Suc.prems(3) have "n - r' \<le> fuel" by simp
    with d show ?thesis by (intro Suc.IH)
  qed
  then have "update_derived_types fuel cfg db ds tm
               (cm(t \<mapsto> concat (map (items_of tm) bs) @ items_of tm t)) \<noteq> None"
    by (intro update_derived_types_defined)
  then show ?case by (simp add: t)
qed

lemma update_derived_types_result:
  assumes step: "\<And>t cm cm'. update_class_list fuel cfg db t tm cm = Some cm' \<Longrightarrow>
      cm' t = Some (class_items cfg db tm t) \<and>
      (\<forall>x. cm' x = cm x \<or> cm' x = Some (class_items cfg db tm x))"
  shows "update_derived_types fuel cfg db ds tm cm = Some cm' \<Longrightarrow>
      (\<forall>d\<in>set ds. cm' d = Some (class_items cfg db tm d)) \<and>
      (\<forall>x. cm' x = cm x \<or> cm' x = Some (class_items cfg db tm x))"
proof (induction ds arbitrary: cm)
  case Nil
  then show ?case by simp
next
  case (Cons d ds)
  from Cons.prems obtain cm1 where
    d: "update_class_list fuel cfg db d tm cm = Some cm1"
    and rest: "update_derived_types fuel cfg db ds tm cm1 = Some cm'"
    by (auto simp: bind_eq_Some_conv)
  note s = step [OF d]
  note ih = Cons.IH [OF rest]
  have "cm' d = Some (class_items cfg db tm d)" using s ih by metis
  moreover have "\<forall>x. cm' x = cm x \<or> cm' x = Some (class_items cfg db tm x)"
    using s ih by metis
  ultimately show ?case using ih by simp
qed

lemma update_class_list_result:
  "update_class_list fuel cfg db t tm cm = Some cm' \<Longrightarrow>
   cm' t = Some (class_items cfg db tm t) \<and>
   (\<forall>x. cm' x = cm x \<or> cm' x = Some (class_items cfg db tm x))"
proof (induction fuel arbitrary: t cm cm')
  case 0
  then show ?case by simp
next
  case (Suc fuel)
  from Suc.prems obtain bs ds where
    bs: "get_base_classes cfg db t = Some bs"
    and ds: "get_derived_classes cfg db t = Some ds"
    and loop: "update_derived_types fuel cfg db ds tm
                 (cm(t \<mapsto> concat (map (items_of tm) bs) @ items_of tm t)) = Some cm'"
    by (auto simp: bind_eq_Some_conv)
  have item: "concat (map (items_of tm) bs) @ items_of tm t = class_items cfg db tm t"
    by (simp add: class_items_def bs)
  note r = update_derived_types_result [OF Suc.IH loop, simplified item]
  have "cm' t = Some (class_items cfg db tm t)" using r by (metis fun_upd_same)
  moreover have "cm' x = cm x \<or> cm' x = Some (class_items cfg db tm x)" for x
    using r by (metis fun_upd_apply)
  ultimately show ?case by blast
qed

lemma update_class_list_derived:
  assumes "update_class_list fuel cfg db t tm cm = Some cm'"
    and "get_derived_classes cfg db t = Some ds" and "d \<in> set ds"
  shows "cm' d = Some (class_items cfg db tm d)"
proof (cases fuel)
  case 0
  with assms show ?thesis by simp
next
  case (Suc f)
  from assms(1,2) obtain bs where
    loop: "update_derived_types f cfg db ds tm
                 (cm(t \<mapsto> concat (map (items_of tm) bs) @ items_of tm t)) = Some cm'"
    unfolding Suc by (auto simp: bind_eq_Some_conv)
  have "(\<forall>d\<in>set ds. cm' d = Some (class_items cfg db tm d)) \<and>
      (\<forall>x. cm' x = (cm(t \<mapsto> concat (map (items_of tm) bs) @ items_of tm t)) x \<or>
           cm' x = Some (class_items cfg db tm x))"
    using loop by (rule update_derived_types_result [rotated]) (rule update_class_list_result)
  with assms(3) show ?thesis by blast
qed


lemma register_property_class:
  assumes "is_valid t" and "is_class db t = Some True"
    and "get_type_property db t (property_name p) = None"
    and "update_class_list fuel cfg db t
           ((m_type_property_map db)(t \<mapsto> items_of (m_type_property_map db) t @ [p]))
           (m_class_property_map db) = Some cm'"
  shows "register_property fuel cfg db t p =
           Some (db\<lparr>m_type_property_map :=
                      (m_type_property_map db)(t \<mapsto> items_of (m_type_property_map db) t @ [p]),
                    m_class_property_map := cm'\<rparr>)"
  using assms by (simp add: register_property_def Let_def)

lemma register_property_class_defined:
  assumes ok: "inheritance_ok cfg db n" and t: "t < n" and fuel: "n \<le> fuel"
    and valid: "is_valid t" and cls: "is_class db t = Some True"
    and new: "get_type_property db t (property_name p) = None"
  obtains cm' where
    "update_class_list fuel cfg db t
           ((m_type_property_map db)(t \<mapsto> items_of (m_type_property_map db) t @ [p]))
           (m_class_property_map db) = Some cm'"
    "register_property fuel cfg db t p =
           Some (db\<lparr>m_type_property_map :=
                      (m_type_property_map db)(t \<mapsto> items_of (m_type_property_map db) t @ [p]),
                    m_class_property_map := cm'\<rparr>)"
proof -
  let ?tm = "(m_type_property_map db)(t \<mapsto> items_of (m_type_property_map db) t @ [p])"
  from inheritance_okD [OF ok t] obtain r where r: "get_raw_type db t = Some r" by blast
  have "n - r \<le> fuel" using fuel by simp
  from update_class_list_defined [OF ok t r this]
  obtain cm' where u: "update_class_list fuel cfg db t ?tm (m_class_property_map db) = Some cm'"
    by blast
  from register_property_class [OF valid cls new u] u show thesis by (rule that [rotated])
qed

lemma update_class_list_numeral:
  "update_class_list (numeral k) cfg db t type_map class_map =
     do { base_classes \<leftarrow> get_base_classes cfg db t;
          let all_items_list =
            concat (map (items_of type_map) base_classes) @ items_of type_map t;
          derived_classes \<leftarrow> get_derived_classes cfg db t;
          update_derived_types (pred_numeral k) cfg db derived_classes type_map
            (class_map(t \<mapsto> all_items_list)) }"
  by (simp add: numeral_eq_Suc)

lemma three_classes_eq:
  "three_classes =
     \<lparr> m_type_id_counter = 3,
       m_type_list = [0, 1, 2, 3],
       m_orig_names = [''!invalid_type!'', ''A'', ''B'', ''T''],
       m_custom_names = [''!invalid_type!'', ''A'', ''B'', ''T''],
       m_orig_name_to_id = [\<lparr>m_name_id = 1, m_hash_value = 1\<rparr>,
         \<lparr>m_name_id = 2, m_hash_value = 1\<rparr>, \<lparr>m_name_id = 3, m_hash_value = 1\<rparr>],
       m_custom_name_to_id = [\<lparr>m_name_id = 1, m_hash_value = 1\<rparr>,
         \<lparr>m_name_id = 2, m_hash_value = 1\<rparr>, \<lparr>m_name_id = 3, m_hash_value = 1\<rparr>],
       m_base_class_list = [0, 0, 0, 0, 0, 0, 0, 0, 0, 1, 2, 0],
       m_derived_class_list = [0, 0, 0, 3, 0, 0, 3, 0, 0, 0, 0, 0],
       m_conversion_list = [0, 0, 0, 0, 0, 0, 0, 0, 0, 11, 22, 0],
       m_get_derived_info_func_list = [0, 0, 0, 0],
       m_raw_type_list = [0, 1, 2, 3],
       m_wrapped_type_list = [0, 0, 0, 0],
       m_array_raw_type_list = [0, 1, 2, 3],
       m_variant_create_func_list = [0, 0, 0, 0],
       m_type_size = [0, 8, 8, 8],
       m_is_class_list = [False, True, True, True],
       m_is_enum_list = [False, False, False, False],
       m_is_array_list = [False, False, False, False],
       m_is_pointer_list = [False, False, False, False],
       m_is_arithmetic_list = [False, False, False, False],
       m_is_function_pointer_list = [False, False, False, False],
       m_is_member_object_pointer_list = [False, False, False, False],
       m_is_member_function_pointer_list = [False, False, False, False],
       m_pointer_dim_list = [0, 0, 0, 0],
       m_global_properties = [],
       m_type_property_map = Map.empty,
       m_class_property_map = Map.empty,
       m_global_methods = [],
       m_type_method_map = Map.empty,
       m_class_method_map = Map.empty,
       m_type_ctor_map = Map.empty,
       m_type_dtor_map = Map.empty,
       m_enumeration_list = [],
       m_metadata_type_list = [],
       m_type_converter_list = [],
       m_type_comparator_list = [] \<rparr>"
  by (simp add: three_classes_def eval_defs)

lemmas eval_property_defs =
  register_property_def is_valid_def m_invalid_id_def is_class_def at_def
  get_type_property_def get_class_item_def items_of_def update_class_list_numeral
  get_base_classes_def get_derived_classes_def get_raw_type_def read_row_numeral
  example_config_def Let_def

lemma three_classes_with_properties_tables:
  "m_raw_type_list three_classes_with_properties = [0, 1, 2, 3]"
  "m_base_class_list three_classes_with_properties = [0, 0, 0, 0, 0, 0, 0, 0, 0, 1, 2, 0]"
  "m_derived_class_list three_classes_with_properties = [0, 0, 0, 3, 0, 0, 3, 0, 0, 0, 0, 0]"
  "m_is_class_list three_classes_with_properties = [False, True, True, True]"
  "m_type_property_map three_classes_with_properties 1 = None"
  "m_type_property_map three_classes_with_properties (Suc 0) = None"
  "m_type_property_map three_classes_with_properties 2
     = Some [\<lparr>property_name = ''b'', property_wrapper = 20\<rparr>]"
  "m_type_property_map three_classes_with_properties 3
     = Some [\<lparr>property_name = ''t'', property_wrapper = 30\<rparr>]"
  by (simp_all add: three_classes_with_properties_def three_classes_eq eval_property_defs)

lemma three_classes_with_properties_rows:
  "get_base_classes example_config three_classes_with_properties 3 = Some [1, 2]"
  "get_derived_classes example_config three_classes_with_properties 1 = Some [3]"
  "get_derived_classes example_config three_classes_with_properties 2 = Some [3]"
  "is_class three_classes_with_properties 1 = Some True"
  "get_type_property three_classes_with_properties 1 ''a'' = None"
  by (simp_all add: three_classes_with_properties_tables get_base_classes_def
      get_derived_classes_def get_raw_type_def read_row_numeral at_def example_config_def
      m_invalid_id_def is_class_def get_type_property_def get_class_item_def)

lemma three_classes_with_properties_ok:
  "inheritance_ok example_config three_classes_with_properties 4"
  by (simp add: inheritance_ok_def lessThan_nat_numeral lessThan_Suc
      three_classes_with_properties_tables get_base_classes_def
      get_derived_classes_def get_raw_type_def read_row_numeral at_def example_config_def
      m_invalid_id_def)

lemma register_property_declared:
  assumes "is_valid t" and "is_class db t = Some True"
    and "get_type_property db t (property_name p) = None"
    and "register_property fuel cfg db t p = Some db'"
  shows "m_type_property_map db' =
           (m_type_property_map db)(t \<mapsto> items_of (m_type_property_map db) t @ [p])"
  using assms by (auto simp: register_property_def Let_def bind_eq_Some_conv)

text \<open>The registry whose class \<open>A\<close> has a full derived-class row.\<close>

lemma six_classes_eq:
  "six_classes =
     \<lparr> m_type_id_counter = 6,
       m_type_list = [0, 1, 2, 3, 4, 5, 6],
       m_orig_names = [''!invalid_type!'', ''A'', ''B'', ''C'', ''D'', ''E'', ''T''],
       m_custom_names = [''!invalid_type!'', ''A'', ''B'', ''C'', ''D'', ''E'', ''T''],
       m_orig_name_to_id = [\<lparr>m_name_id = 1, m_hash_value = 1\<rparr>,
         \<lparr>m_name_id = 2, m_hash_value = 1\<rparr>, \<lparr>m_name_id = 3, m_hash_value = 1\<rparr>,
         \<lparr>m_name_id = 4, m_hash_value = 1\<rparr>, \<lparr>m_name_id = 5, m_hash_value = 1\<rparr>,
         \<lparr>m_name_id = 6, m_hash_value = 1\<rparr>],
       m_custom_name_to_id = [\<lparr>m_name_id = 1, m_hash_value = 1\<rparr>,
         \<lparr>m_name_id = 2, m_hash_value = 1\<rparr>, \<lparr>m_name_id = 3, m_hash_value = 1\<rparr>,
         \<lparr>m_name_id = 4, m_hash_value = 1\<rparr>, \<lparr>m_name_id = 5, m_hash_value = 1\<rparr>,
         \<lparr>m_name_id = 6, m_hash_value = 1\<rparr>],
       m_base_class_list = [0, 0, 0, 0, 0, 0, 0, 0, 0, 1, 0, 0, 1, 0, 0, 1, 0, 0, 1, 2, 0],
       m_derived_class_list = [0, 0, 0, 3, 4, 5, 6, 0, 0, 0, 0, 0, 0, 0, 0, 0, 0, 0, 0, 0, 0],
       m_conversion_list = [0, 0, 0, 0, 0, 0, 0, 0, 0, 11, 0, 0, 11, 0, 0, 11, 0, 0, 11, 22, 0],
       m_get_derived_info_func_list = [0, 0, 0, 0, 0, 0, 0],
       m_raw_type_list = [0, 1, 2, 3, 4, 5, 6],
       m_wrapped_type_list = [0, 0, 0, 0, 0, 0, 0],
       m_array_raw_type_list = [0, 1, 2, 3, 4, 5, 6],
       m_variant_create_func_list = [0, 0, 0, 0, 0, 0, 0],
       m_type_size = [0, 8, 8, 8, 8, 8, 8],
       m_is_class_list = [False, True, True, True, True, True, True],
       m_is_enum_list = [False, False, False, False, False, False, False],
       m_is_array_list = [False, False, False, False, False, False, False],
       m_is_pointer_list = [False, False, False, False, False, False, False],
       m_is_arithmetic_list = [False, False, False, False, False, False, False],
       m_is_function_pointer_list = [False, False, False, False, False, False, False],
       m_is_member_object_pointer_list = [False, False, False, False, False, False, False],
       m_is_member_function_pointer_list = [False, False, False, False, False, False, False],
       m_pointer_dim_list = [0, 0, 0, 0, 0, 0, 0],
       m_global_properties = [],
       m_type_property_map = Map.empty,
       m_class_property_map = Map.empty,
       m_global_methods = [],
       m_type_method_map = Map.empty,
       m_class_method_map = Map.empty,
       m_type_ctor_map = Map.empty,
       m_type_dtor_map = Map.empty,
       m_enumeration_list = [],
       m_metadata_type_list = [],
       m_type_converter_list = [],
       m_type_comparator_list = [] \<rparr>"
  by (simp add: six_classes_def eval_defs)

lemma six_classes_tables:
  "m_raw_type_list six_classes = [0, 1, 2, 3, 4, 5, 6]"
  "m_base_class_list six_classes =
     [0, 0, 0, 0, 0, 0, 0, 0, 0, 1, 0, 0, 1, 0, 0, 1, 0, 0, 1, 2, 0]"
  "m_derived_class_list six_classes =
     [0, 0, 0, 3, 4, 5, 6, 0, 0, 0, 0, 0, 0, 0, 0, 0, 0, 0, 0, 0, 0]"
  "m_is_class_list six_classes = [False, True, True, True, True, True, True]"
  "m_type_property_map six_classes = Map.empty"
  "m_class_property_map six_classes = Map.empty"
  by (simp_all add: six_classes_eq)

lemma six_classes_rows:
  "get_base_classes example_config six_classes 6 = Some [1, 2]"
  "get_derived_classes example_config six_classes 1 = Some [3, 4, 5]"
  "get_derived_classes example_config six_classes 2 = Some [6]"
  by (simp_all add: six_classes_tables get_base_classes_def
      get_derived_classes_def get_raw_type_def read_row_numeral at_def example_config_def
      m_invalid_id_def)

text \<open>
  Claim C3, as amended. Let \<open>B\<close> be a class and \<open>D\<close> a type that has \<open>B\<close> in its
  base-class row and stands in the derived-class row of \<open>B\<close>: \<^verbatim>\<open>register_base_class_info\<close>
  enters \<open>D\<close> there when \<open>D\<close> is registered with \<open>B\<close> among its base classes, if the row
  of \<open>B\<close> still has a free slot. Registering on \<open>B\<close> a property \<open>p\<close> whose name \<open>B\<close> does
  not declare yet returns, when \<open>fuel\<close> allows \<open>n\<close> nested calls, a registry in which the
  properties of \<open>D\<close> at class level contain \<open>p\<close> and \<^verbatim>\<open>get_class_property\<close> of \<open>D\<close>
  finds a property of that name: the list of \<open>D\<close> is rebuilt by the registration on \<open>B\<close>.
\<close>

theorem register_property_reaches_derived:
  assumes ok: "inheritance_ok cfg db n" and B: "B < n" and fuel: "n \<le> fuel"
    and valid: "is_valid B" and cls: "is_class db B = Some True"
    and new: "get_type_property db B (property_name p) = None"
    and bases: "get_base_classes cfg db D = Some bs" and base: "B \<in> set bs"
    and derived: "get_derived_classes cfg db B = Some ds" and D: "D \<in> set ds"
  shows "\<exists>db'. register_property fuel cfg db B p = Some db' \<and>
           p \<in> set (get_class_properties db' D) \<and>
           (\<exists>q. get_class_property db' D (property_name p) = Some q \<and>
                property_name q = property_name p)"
proof -
  let ?tm = "(m_type_property_map db)(B \<mapsto> items_of (m_type_property_map db) B @ [p])"
  from register_property_class_defined [OF ok B fuel valid cls new] obtain cm' where
    u: "update_class_list fuel cfg db B ?tm (m_class_property_map db) = Some cm'"
    and reg: "register_property fuel cfg db B p =
           Some (db\<lparr>m_type_property_map := ?tm, m_class_property_map := cm'\<rparr>)"
    by blast
  let ?db' = "db\<lparr>m_type_property_map := ?tm, m_class_property_map := cm'\<rparr>"
  from update_class_list_derived [OF u derived D]
  have cmD: "cm' D = Some (class_items cfg db ?tm D)" .
  have "p \<in> set (items_of ?tm B)" by (simp add: items_of_def)
  with base have pin: "p \<in> set (class_items cfg db ?tm D)"
    by (auto simp: class_items_def bases)
  then have ne: "class_items cfg db ?tm D \<noteq> []" by auto
  have props: "get_class_properties ?db' D = class_items cfg db ?tm D"
    using ne by (simp add: get_class_properties_def cmD)
  from pin have "\<exists>x\<in>set (class_items cfg db ?tm D). property_name x = property_name p"
    by blast
  then have "find (\<lambda>item. property_name item = property_name p) (class_items cfg db ?tm D)
               \<noteq> None"
    unfolding find_None_iff by blast
  then obtain q where
    q: "find (\<lambda>item. property_name item = property_name p) (class_items cfg db ?tm D) = Some q"
    by auto
  then have "property_name q = property_name p" by (auto simp: find_Some_iff)
  with q have "\<exists>q. get_class_property ?db' D (property_name p) = Some q \<and>
                property_name q = property_name p"
    by (simp add: get_class_property_def get_class_item_def cmD)
  with reg pin props show ?thesis by simp
qed

theorem register_property_reaches_derived_witness:
  "inheritance_ok example_config three_classes_with_properties 4 \<and>
   is_valid 1 \<and> is_class three_classes_with_properties 1 = Some True \<and>
   get_type_property three_classes_with_properties 1 ''a'' = None \<and>
   get_base_classes example_config three_classes_with_properties 3 = Some [1, 2] \<and>
   get_derived_classes example_config three_classes_with_properties 1 = Some [3] \<and>
   (\<exists>db'. register_property 4 example_config three_classes_with_properties 1
             \<lparr>property_name = ''a'', property_wrapper = 10\<rparr> = Some db' \<and>
          \<lparr>property_name = ''a'', property_wrapper = 10\<rparr> \<in> set (get_class_properties db' 3) \<and>
          (\<exists>q. get_class_property db' 3 ''a'' = Some q \<and> property_name q = ''a''))"
proof -
  have valid: "is_valid 1" by (simp add: is_valid_def m_invalid_id_def)
  have new: "get_type_property three_classes_with_properties 1
               (property_name \<lparr>property_name = ''a'', property_wrapper = 10\<rparr>) = None"
    using three_classes_with_properties_rows(5) by simp
  from register_property_reaches_derived
    [OF three_classes_with_properties_ok _ _ valid three_classes_with_properties_rows(4) new
        three_classes_with_properties_rows(1) _ three_classes_with_properties_rows(2),
     where fuel = 4]
  have "\<exists>db'. register_property 4 example_config three_classes_with_properties 1
             \<lparr>property_name = ''a'', property_wrapper = 10\<rparr> = Some db' \<and>
          \<lparr>property_name = ''a'', property_wrapper = 10\<rparr> \<in> set (get_class_properties db' 3) \<and>
          (\<exists>q. get_class_property db' 3 ''a'' = Some q \<and> property_name q = ''a'')"
    by simp
  with three_classes_with_properties_ok valid three_classes_with_properties_rows
  show ?thesis by simp
qed

text \<open>
  The claim as it was stated, for every \<open>D\<close> registered with \<open>B\<close> among its base classes,
  fails when the derived-class row of \<open>B\<close> was full at the registration of \<open>D\<close>. In
  \<open>six_classes\<close> the class \<open>T\<close> (6) has \<open>A\<close> (1) in its base-class row, and the row of \<open>A\<close>
  holds \<open>C\<close>, \<open>D\<close> and \<open>E\<close> only. The property \<open>x\<close> registered on \<open>A\<close> reaches \<open>C\<close> and
  does not reach \<open>T\<close>.
\<close>

theorem register_property_full_row_not_reached:
  "get_base_classes example_config six_classes 6 = Some [1, 2] \<and>
   get_derived_classes example_config six_classes 1 = Some [3, 4, 5] \<and>
   register_property 7 example_config six_classes 1
     \<lparr>property_name = ''x'', property_wrapper = 10\<rparr> = Some six_classes_x \<and>
   get_class_properties six_classes_x 3 = [\<lparr>property_name = ''x'', property_wrapper = 10\<rparr>] \<and>
   get_class_properties six_classes_x 6 = [] \<and>
   \<lparr>property_name = ''x'', property_wrapper = 10\<rparr> \<notin> set (get_class_properties six_classes_x 6) \<and>
   get_class_property six_classes_x 6 ''x'' = None"
  by (simp add: six_classes_x_def six_classes_eq eval_property_defs get_class_properties_def
      get_class_property_def)

text \<open>
  Claim C2, as amended. Let the base-class row of \<open>T\<close> be \<open>B1\<close>, \<open>B2\<close>, and let \<open>T\<close> stand
  in the derived-class rows of both. The first is what \<^verbatim>\<open>register_type\<close> leaves when \<open>T\<close>
  is registered with these two base classes, in whatever order, and \<open>B1\<close> has the smaller
  id, that is, was registered first (\<open>register_type_base_row\<close> below); the second it
  leaves for a base class whose row still has a free slot (\<open>register_type_derived_row\<close>
  below). Then every registration of a new property on \<open>B1\<close>, \<open>B2\<close> or \<open>T\<close> returns a
  registry in which the property list of \<open>T\<close> at class level is what \<open>B1\<close> declares,
  followed by what \<open>B2\<close> declares, followed by what \<open>T\<close> declares.
\<close>

theorem class_properties_of_two_bases:
  assumes ok: "inheritance_ok cfg db n" and t: "t < n" and fuel: "n \<le> fuel"
    and valid: "is_valid t" and cls: "is_class db t = Some True"
    and new: "get_type_property db t (property_name p) = None"
    and bases: "get_base_classes cfg db T = Some [B1, B2]"
    and t_in: "t \<in> {B1, B2, T}"
    and d1: "get_derived_classes cfg db B1 = Some ds1" and T1: "T \<in> set ds1"
    and d2: "get_derived_classes cfg db B2 = Some ds2" and T2: "T \<in> set ds2"
  shows "\<exists>db'. register_property fuel cfg db t p = Some db' \<and>
           get_class_properties db' T =
             items_of (m_type_property_map db') B1 @ items_of (m_type_property_map db') B2 @
             items_of (m_type_property_map db') T"
proof -
  let ?tm = "(m_type_property_map db)(t \<mapsto> items_of (m_type_property_map db) t @ [p])"
  from register_property_class_defined [OF ok t fuel valid cls new] obtain cm' where
    u: "update_class_list fuel cfg db t ?tm (m_class_property_map db) = Some cm'"
    and reg: "register_property fuel cfg db t p =
           Some (db\<lparr>m_type_property_map := ?tm, m_class_property_map := cm'\<rparr>)"
    by blast
  let ?db' = "db\<lparr>m_type_property_map := ?tm, m_class_property_map := cm'\<rparr>"
  have cmT: "cm' T = Some (class_items cfg db ?tm T)"
  proof (cases "t = T")
    case True
    with update_class_list_result [OF u] show ?thesis by simp
  next
    case False
    with t_in consider "t = B1" | "t = B2" by auto
    then show ?thesis
    proof cases
      case 1
      with update_class_list_derived [OF u] d1 T1 show ?thesis by simp
    next
      case 2
      with update_class_list_derived [OF u] d2 T2 show ?thesis by simp
    qed
  qed
  have "class_items cfg db ?tm T = items_of ?tm B1 @ items_of ?tm B2 @ items_of ?tm T"
    by (simp add: class_items_def bases)
  then have "get_class_properties ?db' T =
             items_of (m_type_property_map ?db') B1 @ items_of (m_type_property_map ?db') B2 @
             items_of (m_type_property_map ?db') T"
    by (simp add: get_class_properties_def cmT)
  with reg show ?thesis by blast
qed

theorem class_properties_of_two_bases_witness:
  "inheritance_ok example_config three_classes_with_properties 4 \<and>
   is_valid 1 \<and> is_class three_classes_with_properties 1 = Some True \<and>
   get_type_property three_classes_with_properties 1 ''a'' = None \<and>
   get_base_classes example_config three_classes_with_properties 3 = Some [1, 2] \<and>
   get_derived_classes example_config three_classes_with_properties 1 = Some [3] \<and>
   get_derived_classes example_config three_classes_with_properties 2 = Some [3] \<and>
   (\<exists>db'. register_property 4 example_config three_classes_with_properties 1
             \<lparr>property_name = ''a'', property_wrapper = 10\<rparr> = Some db' \<and>
          get_class_properties db' 3 =
            [\<lparr>property_name = ''a'', property_wrapper = 10\<rparr>,
             \<lparr>property_name = ''b'', property_wrapper = 20\<rparr>,
             \<lparr>property_name = ''t'', property_wrapper = 30\<rparr>])"
proof -
  let ?a = "\<lparr>property_name = ''a'', property_wrapper = 10\<rparr>"
  have valid: "is_valid 1" by (simp add: is_valid_def m_invalid_id_def)
  have new: "get_type_property three_classes_with_properties 1 (property_name ?a) = None"
    using three_classes_with_properties_rows(5) by simp
  from class_properties_of_two_bases
    [OF three_classes_with_properties_ok _ _ valid three_classes_with_properties_rows(4) new
        three_classes_with_properties_rows(1) _ three_classes_with_properties_rows(2) _
        three_classes_with_properties_rows(3), where fuel = 4]
  obtain db' where
    reg: "register_property 4 example_config three_classes_with_properties 1 ?a = Some db'"
    and props: "get_class_properties db' 3 =
             items_of (m_type_property_map db') 1 @ items_of (m_type_property_map db') 2 @
             items_of (m_type_property_map db') 3"
    by auto
  from register_property_declared [OF valid three_classes_with_properties_rows(4) new reg]
  have "get_class_properties db' 3 =
            [?a, \<lparr>property_name = ''b'', property_wrapper = 20\<rparr>,
             \<lparr>property_name = ''t'', property_wrapper = 30\<rparr>]"
    by (simp add: props items_of_def three_classes_with_properties_tables)
  with reg three_classes_with_properties_ok valid three_classes_with_properties_rows
  show ?thesis by simp
qed

text \<open>
  The claim as it was stated, for every \<open>T\<close> registered with the base classes \<open>B1\<close> and
  \<open>B2\<close>, fails when the derived-class row of a base class was full at the registration of
  \<open>T\<close>. In \<open>six_classes\<close> the base-class row of \<open>T\<close> (6) is \<open>A\<close> (1), \<open>B\<close> (2), and \<open>T\<close> is
  missing from the derived-class row of \<open>A\<close>. After the property \<open>t\<close> has been registered
  on \<open>T\<close>, \<open>b\<close> on \<open>B\<close> and \<open>a\<close> on \<open>A\<close>, the list of \<open>T\<close> at class level is \<open>b\<close>, \<open>t\<close>:
  what \<open>A\<close> declares is not in it.
\<close>

theorem class_properties_full_row_base_left_out:
  "get_base_classes example_config six_classes 6 = Some [1, 2] \<and>
   register_property 7 example_config six_classes 6
     \<lparr>property_name = ''t'', property_wrapper = 30\<rparr> = Some six_classes_t \<and>
   register_property 7 example_config six_classes_t 2
     \<lparr>property_name = ''b'', property_wrapper = 20\<rparr> = Some six_classes_tb \<and>
   register_property 7 example_config six_classes_tb 1
     \<lparr>property_name = ''a'', property_wrapper = 10\<rparr> = Some six_classes_tba \<and>
   items_of (m_type_property_map six_classes_tba) 1
     = [\<lparr>property_name = ''a'', property_wrapper = 10\<rparr>] \<and>
   items_of (m_type_property_map six_classes_tba) 2
     = [\<lparr>property_name = ''b'', property_wrapper = 20\<rparr>] \<and>
   items_of (m_type_property_map six_classes_tba) 6
     = [\<lparr>property_name = ''t'', property_wrapper = 30\<rparr>] \<and>
   get_class_properties six_classes_tba 6 =
     [\<lparr>property_name = ''b'', property_wrapper = 20\<rparr>,
      \<lparr>property_name = ''t'', property_wrapper = 30\<rparr>] \<and>
   get_class_properties six_classes_tba 6 \<noteq>
     items_of (m_type_property_map six_classes_tba) 1 @
     items_of (m_type_property_map six_classes_tba) 2 @
     items_of (m_type_property_map six_classes_tba) 6 \<and>
   get_class_property six_classes_tba 6 ''a'' = None"
  by (simp add: six_classes_tba_def six_classes_tb_def six_classes_t_def six_classes_eq
      eval_property_defs get_class_properties_def get_class_property_def)

subsection \<open>The base-class row of a newly registered class\<close>

text \<open>
  A class registered under a new name as its own raw type, with the base classes \<open>B1\<close> and
  \<open>B2\<close> given in any order and any number of times, gets the row \<open>B1\<close>, \<open>B2\<close> when
  \<open>B1\<close> has the smaller id, that is, was registered first.
\<close>

lemma read_row_takeWhile:
  "pos + w \<le> length v \<Longrightarrow>
   read_row v pos w = Some (takeWhile (\<lambda>b. b \<noteq> m_invalid_id) (take w (drop pos v)))"
proof (induction w arbitrary: pos)
  case 0
  then show ?case by simp
next
  case (Suc w)
  then have pos: "pos < length v" and rest: "Suc pos + w \<le> length v" by simp_all
  from pos have "drop pos v = v ! pos # drop (Suc pos) v" by (simp add: Cons_nth_drop_Suc)
  then have "take (Suc w) (drop pos v) = v ! pos # take w (drop (Suc pos) v)" by simp
  then show ?case using pos Suc.IH [OF rest] by (simp add: at_def)
qed

lemma register_base_class_info_row:
  fixes base_classes :: "base_class_info list"
  defines "bases \<equiv> sort_key m_base_type (remove_double_entries (rev base_classes) {} [])"
  assumes reg: "register_base_class_info cfg db src_type raw_type base_classes = Some db'"
    and fresh: "length (m_base_class_list db) \<le> RTTR_MAX_INHERIT_TYPES_COUNT cfg * raw_type"
  shows "take (RTTR_MAX_INHERIT_TYPES_COUNT cfg)
           (drop (RTTR_MAX_INHERIT_TYPES_COUNT cfg * raw_type) (m_base_class_list db')) =
         map m_base_type bases @
           replicate (RTTR_MAX_INHERIT_TYPES_COUNT cfg - length bases) m_invalid_id"
    and "RTTR_MAX_INHERIT_TYPES_COUNT cfg * raw_type + RTTR_MAX_INHERIT_TYPES_COUNT cfg
           \<le> length (m_base_class_list db')"
    and "bases \<noteq> [] \<Longrightarrow> length bases \<le> RTTR_MAX_INHERIT_TYPES_COUNT cfg"
proof -
  define width where "width = RTTR_MAX_INHERIT_TYPES_COUNT cfg"
  define row where "row = width * raw_type"
  define old where "old = m_base_class_list db"
  define bl where "bl = resize old (max (length old) (row + width)) m_invalid_id"
  define cl where
    "cl = resize (m_conversion_list db) (max (length (m_conversion_list db)) (row + width))
            (0::nat)"
  define n where "n = length bases"
  from reg obtain bl' cl' where
    st: "store_base_classes bases row bl cl = Some (bl', cl')"
    and bl': "m_base_class_list db' = bl'"
    unfolding register_base_class_info_def Let_def width_def [symmetric] row_def [symmetric]
      bases_def [symmetric] bl_def [symmetric] cl_def [symmetric] old_def [symmetric]
    by (auto simp: bind_eq_Some_conv)
  from fresh have old_len: "length old \<le> row" by (simp add: row_def width_def old_def)
  then have bl_eq: "bl = old @ replicate (row + width - length old) m_invalid_id"
    by (simp add: bl_def resize_def max_def)
  then have len_bl: "length bl = row + width" using old_len by simp
  note stored = store_base_classes_Some [OF st]
  from stored have bl'_eq: "bl' = take row bl @ map m_base_type bases @ drop (row + n) bl"
    by (simp add: n_def)
  show n_le: "length bases \<le> RTTR_MAX_INHERIT_TYPES_COUNT cfg" if "bases \<noteq> []"
    using stored that len_bl by (simp add: width_def)
  have n_le': "n \<le> width"
    using n_le by (cases "bases = []") (simp_all add: n_def width_def)
  have tail: "drop (row + n) bl = replicate (width - n) m_invalid_id"
    using old_len n_le' by (simp add: bl_eq)
  have "drop row bl' = map m_base_type bases @ replicate (width - n) m_invalid_id"
    using len_bl by (simp add: bl'_eq tail)
  then have "take width (drop row bl') =
      map m_base_type bases @ replicate (width - n) m_invalid_id"
    using n_le' by (simp add: n_def)
  then show "take (RTTR_MAX_INHERIT_TYPES_COUNT cfg)
           (drop (RTTR_MAX_INHERIT_TYPES_COUNT cfg * raw_type) (m_base_class_list db')) =
         map m_base_type bases @
           replicate (RTTR_MAX_INHERIT_TYPES_COUNT cfg - length bases) m_invalid_id"
    by (simp add: bl' width_def row_def n_def)
  have "length bl' = row + width"
    using len_bl n_le' by (simp add: bl'_eq n_def)
  then show "RTTR_MAX_INHERIT_TYPES_COUNT cfg * raw_type + RTTR_MAX_INHERIT_TYPES_COUNT cfg
           \<le> length (m_base_class_list db')"
    by (simp add: bl' width_def row_def)
qed

lemma bases_of_input_types:
  fixes base_classes :: "base_class_info list"
  defines "bases \<equiv> sort_key m_base_type (remove_double_entries (rev base_classes) {} [])"
  shows "set (map m_base_type bases) = m_base_type ` set base_classes"
proof (intro equalityI subsetI)
  fix b assume "b \<in> set (map m_base_type bases)"
  then obtain x where "x \<in> set bases" "b = m_base_type x" by auto
  with bases_of_input(3) [of x base_classes] show "b \<in> m_base_type ` set base_classes"
    by (auto simp: bases_def)
next
  fix b assume "b \<in> m_base_type ` set base_classes"
  then obtain e where e: "e \<in> set base_classes" "b = m_base_type e" by auto
  let ?l = "last (filter (\<lambda>x. m_base_type x = m_base_type e) base_classes)"
  from bases_of_input(2) [OF e(1)] have "?l \<in> set bases" by (simp add: bases_def)
  moreover have "?l \<in> set (filter (\<lambda>x. m_base_type x = m_base_type e) base_classes)"
    using e(1) by (intro last_in_set) (auto simp: filter_empty_conv)
  then have "m_base_type ?l = b" using e(2) by simp
  ultimately show "b \<in> set (map m_base_type bases)" by force
qed

lemma register_type_new_split:
  assumes scan: "scan_orig_names
        (lower_bound m_hash_value (generate_hash cfg (arg_name a)) (m_orig_name_to_id db))
        (m_orig_names db) (generate_hash cfg (arg_name a)) (arg_name a) = Some None"
    and cap: "m_type_id_counter db < 65535"
    and reg: "register_type cfg db a = Some (i, db')"
  shows "\<exists>db2. register_base_class_info cfg db2 i
            (if arg_raw_type a = 0 then i else arg_raw_type a) (arg_base_classes a) = Some db' \<and>
           m_base_class_list db2 = m_base_class_list db \<and>
           m_raw_type_list db2 = m_raw_type_list db @
             [if arg_raw_type a = 0 then i else arg_raw_type a]"
proof -
  from cap have wrap: "Suc (m_type_id_counter db) mod 65536 = Suc (m_type_id_counter db)"
    by simp
  from reg show ?thesis
    unfolding register_type_def register_name_def Let_def scan
    by (auto simp: bind_eq_Some_conv wrap)
qed

lemma register_type_base_row:
  assumes ok: "registry_ok cfg db0" and new: "arg_name a \<notin> registered_names db0"
    and cap: "m_type_id_counter db0 < 65535"
    and reg: "register_type cfg db0 a = Some (T, db)"
    and raw: "arg_raw_type a = 0"
    and fresh: "length (m_base_class_list db0)
                  \<le> RTTR_MAX_INHERIT_TYPES_COUNT cfg * (m_type_id_counter db0 + 1)"
    and bases: "m_base_type ` set (arg_base_classes a) = {B1, B2}"
    and less: "B1 < B2" and valid: "is_valid B1"
  shows "get_base_classes cfg db T = Some [B1, B2]"
proof -
  define bs where
    "bs = sort_key m_base_type (remove_double_entries (rev (arg_base_classes a)) {} [])"
  define width where "width = RTTR_MAX_INHERIT_TYPES_COUNT cfg"
  note scan = registry_ok_not_found [OF ok new]
  from register_type_new_fields(1) [OF scan cap reg] have T: "T = m_type_id_counter db0 + 1" .
  from register_type_new_split [OF scan cap reg] raw obtain db2 where
    rb: "register_base_class_info cfg db2 T T (arg_base_classes a) = Some db"
    and bl2: "m_base_class_list db2 = m_base_class_list db0"
    and raw2: "m_raw_type_list db2 = m_raw_type_list db0 @ [T]"
    by auto
  from register_base_class_info_fields [OF rb] raw2
  have raws: "m_raw_type_list db = m_raw_type_list db0 @ [T]" by auto
  have "length (m_raw_type_list db0) = m_type_id_counter db0 + 1"
    using ok by (simp add: registry_ok_def attribute_table_lengths_def)
  then have rawT: "get_raw_type db T = Some T"
    by (simp add: get_raw_type_def at_def raws T nth_append)
  from fresh have fresh2: "length (m_base_class_list db2) \<le> RTTR_MAX_INHERIT_TYPES_COUNT cfg * T"
    by (simp add: bl2 T)
  note row = register_base_class_info_row [OF rb fresh2, folded bs_def width_def]
  have "sorted (map m_base_type bs)" by (simp add: bs_def)
  moreover have "distinct (map m_base_type bs)" unfolding bs_def by (rule bases_of_input(1))
  moreover have "set (map m_base_type bs) = set [B1, B2]"
    unfolding bs_def bases_of_input_types using bases by simp
  moreover have "sorted [B1, B2]" "distinct [B1, B2]" using less by simp_all
  ultimately have types: "map m_base_type bs = [B1, B2]"
    by (intro sorted_distinct_set_unique)
  then have "length bs = 2" by (metis length_map length_Cons list.size(3) numeral_2_eq_2)
  from less valid have nz: "B1 \<noteq> m_invalid_id" "B2 \<noteq> m_invalid_id"
    by (simp_all add: is_valid_def m_invalid_id_def)
  have "read_row (m_base_class_list db) (width * T) width =
        Some (takeWhile (\<lambda>b. b \<noteq> m_invalid_id)
                (take width (drop (width * T) (m_base_class_list db))))"
    using row(2) by (intro read_row_takeWhile)
  also have "\<dots> = Some [B1, B2]"
    using nz by (simp add: row(1) types)
  finally show ?thesis by (simp add: get_base_classes_def rawT width_def)
qed

subsection \<open>The derived-class row of a base class\<close>

text \<open>
  When a type is registered under a new name, it is entered in the derived-class row of the
  raw type of each of its base classes, provided the row has a free slot; afterwards
  \<^verbatim>\<open>get_derived_classes\<close> of the base class returns it.
\<close>

lemma grows_to_refl: "grows_to src dl dl"
  by (simp add: grows_to_def)

lemma grows_to_trans: "grows_to src a b \<Longrightarrow> grows_to src b c \<Longrightarrow> grows_to src a c"
  unfolding grows_to_def by (metis)

lemma store_derived_class_grows:
  "store_derived_class dl pos n src = Some dl' \<Longrightarrow> grows_to src dl dl'"
proof (induction n arbitrary: pos)
  case 0
  then show ?case by (simp add: grows_to_refl)
next
  case (Suc n)
  show ?case
  proof (cases "at dl pos")
    case None
    with Suc.prems show ?thesis by simp
  next
    case (Some d)
    then have pos: "pos < length dl" "d = dl ! pos" by (auto simp: at_def split: if_splits)
    show ?thesis
    proof (cases "d = m_invalid_id")
      case True
      with Suc.prems Some pos have "dl' = dl[pos := src]" by (simp add: put_def)
      with True pos show ?thesis by (auto simp: grows_to_def nth_list_update)
    next
      case False
      with Suc.prems Some have "store_derived_class dl (Suc pos) n src = Some dl'" by simp
      then show ?thesis by (rule Suc.IH)
    qed
  qed
qed

lemma store_derived_class_outside:
  "store_derived_class dl pos n src = Some dl' \<Longrightarrow> k < pos \<or> pos + n \<le> k \<Longrightarrow>
   dl' ! k = dl ! k"
proof (induction n arbitrary: pos)
  case 0
  then show ?case by simp
next
  case (Suc n)
  show ?case
  proof (cases "at dl pos")
    case None
    with Suc.prems show ?thesis by simp
  next
    case (Some d)
    show ?thesis
    proof (cases "d = m_invalid_id")
      case True
      with Suc.prems Some have "dl' = dl[pos := src]"
        by (auto simp: put_def split: if_splits)
      moreover from Suc.prems(2) have "k \<noteq> pos" by auto
      ultimately show ?thesis by simp
    next
      case False
      with Suc.prems Some have "store_derived_class dl (Suc pos) n src = Some dl'" by simp
      moreover from Suc.prems(2) have "k < Suc pos \<or> Suc pos + n \<le> k" by auto
      ultimately show ?thesis by (rule Suc.IH)
    qed
  qed
qed

lemma store_derived_classes_grows:
  "store_derived_classes cfg raw_list bs dl src = Some dl' \<Longrightarrow> grows_to src dl dl'"
proof (induction bs arbitrary: dl)
  case Nil
  then show ?case by (simp add: grows_to_refl)
next
  case (Cons b bs)
  from Cons.prems obtain r dl1 where
    "store_derived_class dl (RTTR_MAX_INHERIT_TYPES_COUNT cfg * r)
       (RTTR_MAX_INHERIT_TYPES_COUNT cfg) src = Some dl1"
    and rest: "store_derived_classes cfg raw_list bs dl1 src = Some dl'"
    by (auto simp: bind_eq_Some_conv)
  then have "grows_to src dl dl1" by (intro store_derived_class_grows)
  with Cons.IH [OF rest] show ?case by (rule grows_to_trans [rotated])
qed

lemma in_row_grows:
  assumes "in_row src dl pos n" and "grows_to src dl dl'" and "src \<noteq> m_invalid_id"
  shows "in_row src dl' pos n"
proof -
  from assms(1) obtain j where j: "j < n" "pos + j < length dl" "dl ! (pos + j) = src"
    "\<forall>i<j. dl ! (pos + i) \<noteq> m_invalid_id"
    unfolding in_row_def by blast
  from assms(2) have len: "length dl' = length dl"
    and keep: "\<And>k. k < length dl \<Longrightarrow> dl ! k \<noteq> m_invalid_id \<Longrightarrow> dl' ! k = dl ! k"
    unfolding grows_to_def by auto
  have "dl' ! (pos + j) = src" using keep [of "pos + j"] j assms(3) by simp
  moreover have "dl' ! (pos + i) \<noteq> m_invalid_id" if "i < j" for i
    using keep [of "pos + i"] j that by simp
  ultimately show ?thesis unfolding in_row_def using j len by auto
qed

lemma store_derived_class_in_row:
  "store_derived_class dl pos n src = Some dl' \<Longrightarrow>
   \<exists>j<n. dl ! (pos + j) = m_invalid_id \<Longrightarrow> in_row src dl' pos n"
proof (induction n arbitrary: pos)
  case 0
  then show ?case by simp
next
  case (Suc n)
  show ?case
  proof (cases "at dl pos")
    case None
    with Suc.prems show ?thesis by simp
  next
    case (Some d)
    then have pos: "pos < length dl" "d = dl ! pos" by (auto simp: at_def split: if_splits)
    show ?thesis
    proof (cases "d = m_invalid_id")
      case True
      with Suc.prems Some pos have "dl' = dl[pos := src]" by (simp add: put_def)
      with pos have "pos + 0 < length dl' \<and> dl' ! (pos + 0) = src" by simp
      then show ?thesis unfolding in_row_def by (intro exI [of _ 0]) simp
    next
      case False
      with Suc.prems Some have st: "store_derived_class dl (Suc pos) n src = Some dl'" by simp
      from Suc.prems(2) obtain j where j: "j < Suc n" "dl ! (pos + j) = m_invalid_id" by blast
      with False pos have "j \<noteq> 0" by (intro notI) simp
      then obtain j' where "j = Suc j'" by (cases j) auto
      with j have "\<exists>j<n. dl ! (Suc pos + j) = m_invalid_id" by auto
      from Suc.IH [OF st this] obtain k where k: "k < n" "Suc pos + k < length dl'"
        "dl' ! (Suc pos + k) = src" "\<forall>i<k. dl' ! (Suc pos + i) \<noteq> m_invalid_id"
        unfolding in_row_def by blast
      from store_derived_class_grows [OF st] pos False
      have first: "dl' ! pos \<noteq> m_invalid_id" by (auto simp: grows_to_def)
      have "dl' ! (pos + i) \<noteq> m_invalid_id" if "i < Suc k" for i
        using that k(4) first by (cases i) auto
      with k show ?thesis unfolding in_row_def by (intro exI [of _ "Suc k"]) simp
    qed
  qed
qed

lemma store_derived_classes_in_row:
  "store_derived_classes cfg raw_list bs dl src = Some dl' \<Longrightarrow> b \<in> set bs \<Longrightarrow>
   at raw_list (m_base_type b) = Some r \<Longrightarrow> src \<noteq> m_invalid_id \<Longrightarrow>
   in_row src dl (RTTR_MAX_INHERIT_TYPES_COUNT cfg * r) (RTTR_MAX_INHERIT_TYPES_COUNT cfg) \<or>
   (\<exists>j<RTTR_MAX_INHERIT_TYPES_COUNT cfg.
       dl ! (RTTR_MAX_INHERIT_TYPES_COUNT cfg * r + j) = m_invalid_id) \<Longrightarrow>
   in_row src dl' (RTTR_MAX_INHERIT_TYPES_COUNT cfg * r) (RTTR_MAX_INHERIT_TYPES_COUNT cfg)"
proof (induction bs arbitrary: dl)
  case Nil
  then show ?case by simp
next
  case (Cons x bs)
  let ?w = "RTTR_MAX_INHERIT_TYPES_COUNT cfg"
  from Cons.prems(1) obtain rx dl1 where
    rx: "at raw_list (m_base_type x) = Some rx"
    and one: "store_derived_class dl (?w * rx) ?w src = Some dl1"
    and rest: "store_derived_classes cfg raw_list bs dl1 src = Some dl'"
    by (auto simp: bind_eq_Some_conv)
  note g1 = store_derived_class_grows [OF one]
  note g2 = store_derived_classes_grows [OF rest]
  show ?case
  proof (cases "in_row src dl (?w * r) ?w")
    case True
    from in_row_grows [OF True grows_to_trans [OF g1 g2] Cons.prems(4)] show ?thesis .
  next
    case False
    with Cons.prems(5) have free: "\<exists>j<?w. dl ! (?w * r + j) = m_invalid_id" by simp
    show ?thesis
    proof (cases "rx = r")
      case True
      from store_derived_class_in_row [OF one [unfolded True] free]
      have "in_row src dl1 (?w * r) ?w" .
      from in_row_grows [OF this g2 Cons.prems(4)] show ?thesis .
    next
      case ne: False
      with Cons.prems(2,3) rx have b: "b \<in> set bs" by auto
      from free obtain j where j: "j < ?w" "dl ! (?w * r + j) = m_invalid_id" by blast
      have "?w * r + j < ?w * rx \<or> ?w * rx + ?w \<le> ?w * r + j"
      proof (cases "r < rx")
        case True
        then have "?w * (r + 1) \<le> ?w * rx" by (intro mult_le_mono2) simp
        with j(1) show ?thesis by simp
      next
        case False
        with ne have "?w * (rx + 1) \<le> ?w * r" by (intro mult_le_mono2) simp
        then show ?thesis by simp
      qed
      from store_derived_class_outside [OF one this] j
      have "in_row src dl1 (?w * r) ?w \<or> (\<exists>j<?w. dl1 ! (?w * r + j) = m_invalid_id)"
        by auto
      from Cons.IH [OF rest b Cons.prems(3,4) this] show ?thesis .
    qed
  qed
qed


lemma in_row_read_row:
  assumes row: "in_row src dl pos n" and len: "pos + n \<le> length dl"
    and src: "src \<noteq> m_invalid_id"
  shows "\<exists>ds. read_row dl pos n = Some ds \<and> src \<in> set ds"
proof -
  let ?xs = "take n (drop pos dl)"
  let ?P = "\<lambda>b. b \<noteq> m_invalid_id"
  from row obtain j where j: "j < n" "dl ! (pos + j) = src"
    "\<forall>i<j. dl ! (pos + i) \<noteq> m_invalid_id"
    unfolding in_row_def by blast
  have nth: "?xs ! i = dl ! (pos + i)" if "i < n" for i using that len by simp
  have lenxs: "length ?xs = n" using len by simp
  have "?P (?xs ! i)" if "i < Suc j" for i
  proof (cases "i = j")
    case True
    with nth [OF j(1)] j(2) src show ?thesis by simp
  next
    case False
    with that have "i < j" by simp
    with j have "dl ! (pos + i) \<noteq> m_invalid_id" "i < n" by simp_all
    with nth [of i] show ?thesis by simp
  qed
  then have "Suc j \<le> length (takeWhile ?P ?xs)"
    using j(1) lenxs by (intro length_takeWhile_less_P_nth) simp_all
  then have jl: "j < length (takeWhile ?P ?xs)" by simp
  then have "takeWhile ?P ?xs ! j = ?xs ! j" by (rule takeWhile_nth)
  with nth [OF j(1)] j(2) have "takeWhile ?P ?xs ! j = src" by simp
  with jl have "src \<in> set (takeWhile ?P ?xs)" by (metis nth_mem)
  then show ?thesis using read_row_takeWhile [OF len] by simp
qed

lemma register_base_class_info_derived:
  assumes "register_base_class_info cfg db src_type raw_type base_classes = Some db'"
  shows "store_derived_classes cfg (m_raw_type_list db)
           (sort_key m_base_type (remove_double_entries (rev base_classes) {} []))
           (resize (m_derived_class_list db)
              (max (length (m_derived_class_list db))
                 (RTTR_MAX_INHERIT_TYPES_COUNT cfg * raw_type + RTTR_MAX_INHERIT_TYPES_COUNT cfg))
              m_invalid_id)
           src_type = Some (m_derived_class_list db')"
    and "m_raw_type_list db' = m_raw_type_list db"
  using assms unfolding register_base_class_info_def Let_def
  by (auto simp: bind_eq_Some_conv)

lemma register_type_new_lists:
  assumes scan: "scan_orig_names
        (lower_bound m_hash_value (generate_hash cfg (arg_name a)) (m_orig_name_to_id db))
        (m_orig_names db) (generate_hash cfg (arg_name a)) (arg_name a) = Some None"
    and cap: "m_type_id_counter db < 65535"
    and reg: "register_type cfg db a = Some (i, db')"
  shows "\<exists>db2. register_base_class_info cfg db2 i
            (if arg_raw_type a = 0 then i else arg_raw_type a) (arg_base_classes a) = Some db' \<and>
           m_derived_class_list db2 = m_derived_class_list db \<and>
           m_raw_type_list db2 = m_raw_type_list db @
             [if arg_raw_type a = 0 then i else arg_raw_type a]"
proof -
  from cap have wrap: "Suc (m_type_id_counter db) mod 65536 = Suc (m_type_id_counter db)"
    by simp
  from reg show ?thesis
    unfolding register_type_def register_name_def Let_def scan
    by (auto simp: bind_eq_Some_conv wrap)
qed

lemma register_type_derived_row:
  assumes ok: "registry_ok cfg db0" and new: "arg_name a \<notin> registered_names db0"
    and cap: "m_type_id_counter db0 < 65535"
    and reg: "register_type cfg db0 a = Some (T, db)"
    and base: "B \<in> m_base_type ` set (arg_base_classes a)"
    and raw: "get_raw_type db0 B = Some r"
    and alloc: "RTTR_MAX_INHERIT_TYPES_COUNT cfg * r + RTTR_MAX_INHERIT_TYPES_COUNT cfg
                  \<le> length (m_derived_class_list db0)"
    and free: "\<exists>j<RTTR_MAX_INHERIT_TYPES_COUNT cfg.
                 m_derived_class_list db0 ! (RTTR_MAX_INHERIT_TYPES_COUNT cfg * r + j)
                   = m_invalid_id"
  shows "\<exists>ds. get_derived_classes cfg db B = Some ds \<and> T \<in> set ds"
proof -
  let ?w = "RTTR_MAX_INHERIT_TYPES_COUNT cfg"
  let ?bs = "sort_key m_base_type (remove_double_entries (rev (arg_base_classes a)) {} [])"
  note scan = registry_ok_not_found [OF ok new]
  from register_type_new_fields(1) [OF scan cap reg] have T: "T = m_type_id_counter db0 + 1" .
  then have Tnz: "T \<noteq> m_invalid_id" by (simp add: m_invalid_id_def)
  from register_type_new_lists [OF scan cap reg] obtain db2 raw_id where
    rb: "register_base_class_info cfg db2 T raw_id (arg_base_classes a) = Some db"
    and dl2: "m_derived_class_list db2 = m_derived_class_list db0"
    and raw2: "m_raw_type_list db2 = m_raw_type_list db0 @ [raw_id]"
    by blast
  let ?dl = "resize (m_derived_class_list db0)
               (max (length (m_derived_class_list db0)) (?w * raw_id + ?w)) m_invalid_id"
  from register_base_class_info_derived [OF rb]
  have st: "store_derived_classes cfg (m_raw_type_list db0 @ [raw_id]) ?bs ?dl T
              = Some (m_derived_class_list db)"
    and raws: "m_raw_type_list db = m_raw_type_list db0 @ [raw_id]"
    by (simp_all add: dl2 raw2)
  from raw have B: "B < length (m_raw_type_list db0)" "m_raw_type_list db0 ! B = r"
    by (auto simp: get_raw_type_def at_def split: if_splits)
  then have atB: "at (m_raw_type_list db0 @ [raw_id]) B = Some r"
    by (simp add: at_def nth_append)
  from base obtain e where e: "e \<in> set (arg_base_classes a)" "m_base_type e = B" by auto
  let ?l = "last (filter (\<lambda>x. m_base_type x = m_base_type e) (arg_base_classes a))"
  from bases_of_input(2) [OF e(1)] have lin: "?l \<in> set ?bs" .
  have "?l \<in> set (filter (\<lambda>x. m_base_type x = m_base_type e) (arg_base_classes a))"
    using e(1) by (intro last_in_set) (auto simp: filter_empty_conv)
  then have lB: "m_base_type ?l = B" using e(2) by simp
  have keep: "?dl ! k = m_derived_class_list db0 ! k" if "k < length (m_derived_class_list db0)" for k
    using that by (simp add: resize_def nth_append max_def)
  from free obtain j where j: "j < ?w" "m_derived_class_list db0 ! (?w * r + j) = m_invalid_id"
    by blast
  with alloc have "?dl ! (?w * r + j) = m_invalid_id" by (simp add: keep)
  with j(1) have free': "in_row T ?dl (?w * r) ?w \<or> (\<exists>j<?w. ?dl ! (?w * r + j) = m_invalid_id)"
    by blast
  from store_derived_classes_in_row [OF st lin atB [folded lB] Tnz free']
  have row: "in_row T (m_derived_class_list db) (?w * r) ?w" .
  from store_derived_classes_grows [OF st]
  have "length (m_derived_class_list db) = length ?dl" by (simp add: grows_to_def)
  with alloc have len: "?w * r + ?w \<le> length (m_derived_class_list db)"
    by (simp add: resize_def)
  have "get_raw_type db B = Some r" using B by (simp add: get_raw_type_def at_def raws nth_append)
  with in_row_read_row [OF row len Tnz] show ?thesis by (simp add: get_derived_classes_def)
qed

end
